theory Spec2Isabelle
  imports
    Complex_Main
    "HOL-Library.Char_ord"
    "HOL-Library.List_Lexorder"
    "HOL-Library.Option_ord"
    "HOL-Library.Multiset"
begin

chapter \<open>The Federal Register agent\<close>

text \<open>
  A shallow embedding of the synchronisation pipeline (\<^verbatim>\<open>pipeline/federal_register.py\<close>:
  the paginated fetch, the enrichment by detail records, the content digest and the
  transactional upsert) and of the retrieval layer (\<^verbatim>\<open>agent/federal_agent.py\<close>: the
  search with its substring fallback, and the intent gate of \<^verbatim>\<open>chat\<close>).

  The program talks to an HTTP API and to a MySQL server. Their answers are parameters of
  the model: the script of the listing endpoint's responses, the detail endpoint as a
  function of the document number, the order in which the worker threads finish, the
  digest function of \<^verbatim>\<open>hashlib\<close>, what the interpreter's Unicode database says of the
  characters outside ASCII, and which texts the collation of the tables holds equal. The
  statements the program sends to the server are interpreted on a store of rows, as far
  as SQL fixes their meaning.
\<close>

section \<open>JSON values as Python sees them\<close>

text \<open>
  The pipeline handles the payloads of the Federal Register API as the values
  \<^verbatim>\<open>resp.json()\<close> returns: \<^verbatim>\<open>None\<close>, booleans, integers, strings, lists and
  dictionaries with string keys. A dictionary keeps its insertion order, so it is an
  association list; Python guarantees that its keys are distinct. Strings are byte
  strings (UTF-8), whose lexicographic order is the order of the code points.
  Numbers of the payload are integers (page numbers and counts).
\<close>

datatype json =
    JNull
  | JBool bool
  | JInt int
  | JStr string
  | JList "json list"
  | JObj "(string \<times> json) list"

text \<open>
  The characters of a string: a character takes one to four bytes, and its first byte
  tells how many. (The strings of a payload are well-formed UTF-8.)
\<close>

definition utf8_width :: "char \<Rightarrow> nat" where
  "utf8_width b =
     (let n = (of_char b :: int) in if n < 0xC0 then 1 else if n < 0xE0 then 2 else if n < 0xF0 then 3 else 4)"

function utf8_chars :: "string \<Rightarrow> string list" where
  "utf8_chars [] = []"
| "utf8_chars (b # bs) = (b # take (utf8_width b - 1) bs) # utf8_chars (drop (utf8_width b - 1) bs)"
  by pat_completeness auto

termination
  by (relation "measure length") auto

text \<open>Python truthiness: \<^verbatim>\<open>not x\<close>, \<^verbatim>\<open>if x\<close>, \<^verbatim>\<open>x or y\<close>.\<close>

fun truthy :: "json \<Rightarrow> bool" where
  "truthy JNull = False"
| "truthy (JBool b) = b"
| "truthy (JInt i) = (i \<noteq> 0)"
| "truthy (JStr s) = (s \<noteq> [])"
| "truthy (JList xs) = (xs \<noteq> [])"
| "truthy (JObj kvs) = (kvs \<noteq> [])"

definition py_or :: "json \<Rightarrow> json \<Rightarrow> json" where
  "py_or a b = (if truthy a then a else b)"

text \<open>\<^verbatim>\<open>d.get(k)\<close> and \<^verbatim>\<open>d.get(k, default)\<close> on a dictionary.\<close>

definition dict_get_default :: "(string \<times> json) list \<Rightarrow> string \<Rightarrow> json \<Rightarrow> json" where
  "dict_get_default kvs k d = (case map_of kvs k of None \<Rightarrow> d | Some v \<Rightarrow> v)"

definition dict_get :: "(string \<times> json) list \<Rightarrow> string \<Rightarrow> json" where
  "dict_get kvs k = dict_get_default kvs k JNull"

text \<open>
  \<^verbatim>\<open>d[k] = v\<close>: an existing key keeps its position, a new key goes last.
  \<^verbatim>\<open>{**a, **b}\<close> is a copy of \<open>a\<close> to which the items of \<open>b\<close> are assigned in
  their order.
\<close>

fun dict_set :: "string \<Rightarrow> json \<Rightarrow> (string \<times> json) list \<Rightarrow> (string \<times> json) list" where
  "dict_set k v [] = [(k, v)]"
| "dict_set k v (p # ps) = (if fst p = k then (k, v) # ps else p # dict_set k v ps)"

definition dict_merge :: "(string \<times> json) list \<Rightarrow> (string \<times> json) list \<Rightarrow> (string \<times> json) list" where
  "dict_merge a b = fold (\<lambda>(k, v). dict_set k v) b a"

section \<open>Serialisation: \<^verbatim>\<open>json.dumps\<close>\<close>

fun digit_char :: "nat \<Rightarrow> char" where
  "digit_char n = char_of (48 + n)"

fun str_nat :: "nat \<Rightarrow> string" where
  "str_nat n = (if n < 10 then [digit_char n] else str_nat (n div 10) @ [digit_char (n mod 10)])"

definition str_int :: "int \<Rightarrow> string" where
  "str_int i = (if i < 0 then CHR ''-'' # str_nat (nat (- i)) else str_nat (nat i))"

definition hex_digit :: "nat \<Rightarrow> char" where
  "hex_digit n = (if n < 10 then char_of (48 + n) else char_of (87 + n))"

text \<open>
  \<^verbatim>\<open>json.encoder.encode_basestring\<close> (the encoder of \<^verbatim>\<open>ensure_ascii=False\<close>): the
  backslash, the double quote and the control characters below \<open>0x20\<close> are escaped,
  every other character is copied.
\<close>

definition escape_char :: "char \<Rightarrow> string" where
  "escape_char c =
     (if c = CHR 0x5C then [CHR 0x5C, CHR 0x5C]
      else if c = CHR 0x22 then [CHR 0x5C, CHR 0x22]
      else if c = CHR 0x08 then [CHR 0x5C, CHR ''b'']
      else if c = CHR 0x0C then [CHR 0x5C, CHR ''f'']
      else if c = CHR 0x0A then [CHR 0x5C, CHR ''n'']
      else if c = CHR 0x0D then [CHR 0x5C, CHR ''r'']
      else if c = CHR 0x09 then [CHR 0x5C, CHR ''t'']
      else if (of_char c :: nat) < 32
        then [CHR 0x5C, CHR ''u'', CHR ''0'', CHR ''0'',
              hex_digit ((of_char c :: nat) div 16), hex_digit ((of_char c :: nat) mod 16)]
      else [c])"

definition encode_basestring :: "string \<Rightarrow> string" where
  "encode_basestring s = [CHR 0x22] @ concat (map escape_char s) @ [CHR 0x22]"

text \<open>\<^verbatim>\<open>sep.join(xs)\<close>.\<close>

definition join :: "'a list \<Rightarrow> 'a list list \<Rightarrow> 'a list" where
  "join sep xs = (case xs of [] \<Rightarrow> [] | y # ys \<Rightarrow> y @ concat (map (\<lambda>s. sep @ s) ys))"

lemma size_snd_member:
  "(a, b) \<in> set kvs \<Longrightarrow> size b < Suc (size_list (size_prod (\<lambda>x. 0) size) kvs)"
  by (induction kvs) auto

text \<open>
  \<^verbatim>\<open>json.dumps(obj, sort_keys=sk, ensure_ascii=False)\<close> with the default separators
  \<^verbatim>\<open>", "\<close> and \<^verbatim>\<open>": "\<close>. With \<^verbatim>\<open>sort_keys\<close> the encoder iterates over
  \<^verbatim>\<open>sorted(dct.items())\<close>; the keys of a dictionary are distinct, so the items are
  ordered by their keys.
\<close>

function dumps :: "bool \<Rightarrow> json \<Rightarrow> string" where
  "dumps sk JNull = ''null''"
| "dumps sk (JBool b) = (if b then ''true'' else ''false'')"
| "dumps sk (JInt i) = str_int i"
| "dumps sk (JStr s) = encode_basestring s"
| "dumps sk (JList xs) = ''['' @ join '', '' (map (dumps sk) xs) @ '']''"
| "dumps sk (JObj kvs) =
     ''{'' @ join '', '' (map (\<lambda>(k, v). encode_basestring k @ '': '' @ dumps sk v)
        (if sk then sort_key fst kvs else kvs)) @ ''}''"
  by pat_completeness auto
termination
proof (relation "measure (\<lambda>(sk, j). size j)", goal_cases)
  case 1
  show ?case by simp
next
  case (2 sk xs x)
  then show ?case by (induction xs) auto
next
  case (3 sk kvs p a b)
  then have "(a, b) \<in> set kvs" by (auto split: if_splits)
  then show ?case using size_snd_member by auto
qed

section \<open>ContentHasher: \<^verbatim>\<open>_compute_content_hash\<close>\<close>

text \<open>
  \<^verbatim>\<open>hashlib.sha256(j.encode('utf-8')).hexdigest()\<close> is the library's; it is the
  parameter \<open>sha256\<close>, any function from byte strings to digests.
\<close>

definition compute_content_hash :: "(string \<Rightarrow> string) \<Rightarrow> json \<Rightarrow> string" where
  "compute_content_hash sha256 doc = sha256 (dumps True doc)"

section \<open>Notions used to state the properties of the hasher\<close>

text \<open>
  Two JSON values with the same content: equal up to the order of the fields of the
  dictionaries in them, at any depth. A dictionary has distinct keys.
\<close>

inductive same_content :: "json \<Rightarrow> json \<Rightarrow> bool" where
  same_value: "same_content j j"
| same_list: "list_all2 same_content xs ys \<Longrightarrow> same_content (JList xs) (JList ys)"
| same_dict:
    "distinct (map fst xs) \<Longrightarrow> distinct (map fst ys) \<Longrightarrow> fst ` set xs = fst ` set ys \<Longrightarrow>
     (\<forall>k v w. map_of xs k = Some v \<longrightarrow> map_of ys k = Some w \<longrightarrow> same_content v w) \<Longrightarrow>
     same_content (JObj xs) (JObj ys)"

text \<open>A document and the same document with its fields in another order, at both levels.\<close>

definition epa_doc :: json where
  "epa_doc =
     JObj [(''title'', JStr ''Rule''),
           (''agencies'', JList [JObj [(''name'', JStr ''EPA''), (''id'', JInt 145)]])]"

definition epa_doc_reordered :: json where
  "epa_doc_reordered =
     JObj [(''agencies'', JList [JObj [(''id'', JInt 145), (''name'', JStr ''EPA'')]]),
           (''title'', JStr ''Rule'')]"

section \<open>Fetcher: the pagination loop of \<^verbatim>\<open>fetch_documents\<close>\<close>

text \<open>
  What one \<^verbatim>\<open>requests.get\<close> of the listing endpoint does, as the loop's
  \<^verbatim>\<open>try\<close>/\<^verbatim>\<open>except\<close> tells the cases apart: \<^verbatim>\<open>requests.HTTPError\<close>
  (from \<^verbatim>\<open>raise_for_status\<close>), another \<^verbatim>\<open>requests.RequestException\<close>, any other
  exception, or a decoded body \<^verbatim>\<open>resp.json()\<close>.
\<close>

datatype response = HTTPError | RequestException | UnexpectedError | Body json

text \<open>What the loop does to the outside: a request for a page, or \<^verbatim>\<open>time.sleep\<close>.\<close>

datatype event = Request int | Sleep nat

record fetch_state =
  page :: int
  retries :: int
  all_shallow :: "json list"
  trace :: "event list"

datatype step = Break fetch_state | Continue fetch_state

text \<open>\<^verbatim>\<open>if max_pages and page > max_pages: break\<close>; \<^verbatim>\<open>None\<close> and \<open>0\<close> are falsy.\<close>

definition cap_reached :: "int option \<Rightarrow> int \<Rightarrow> bool" where
  "cap_reached max_pages p = (case max_pages of None \<Rightarrow> False | Some m \<Rightarrow> m \<noteq> 0 \<and> p > m)"

text \<open>
  \<^verbatim>\<open>all_shallow.extend(results)\<close> and \<^verbatim>\<open>len(results)\<close> for a truthy \<open>results\<close>:
  a list gives its elements, a string its characters, a dictionary its keys; a number
  or \<^verbatim>\<open>True\<close> is not iterable (\<^verbatim>\<open>TypeError\<close>, caught by
  \<^verbatim>\<open>except Exception\<close>).
\<close>

fun py_iter :: "json \<Rightarrow> json list option" where
  "py_iter (JList xs) = Some xs"
| "py_iter (JStr s) = Some (map JStr (utf8_chars s))"
| "py_iter (JObj kvs) = Some (map (\<lambda>(k, v). JStr k) kvs)"
| "py_iter JNull = None"
| "py_iter (JBool b) = None"
| "py_iter (JInt i) = None"

text \<open>
  The body of the \<^verbatim>\<open>try\<close> once \<^verbatim>\<open>data = resp.json()\<close> is there. The page is also
  written to a file of its own; the write is taken to succeed and is not part of the
  state.
\<close>

definition handle_body :: "int \<Rightarrow> json \<Rightarrow> fetch_state \<Rightarrow> step" where
  "handle_body per_page data s =
     (case data of
        JObj kvs \<Rightarrow>
          (if ''results'' \<notin> fst ` set kvs then Break s
           else let results = dict_get_default kvs ''results'' (JList []) in
             if \<not> truthy results then Break s
             else (case py_iter results of
                     None \<Rightarrow> Break s
                   | Some items \<Rightarrow>
                       let s' = s\<lparr>all_shallow := all_shallow s @ items\<rparr> in
                       if int (length items) < per_page then Break s'
                       else Continue (s'\<lparr>page := page s' + 1, retries := 0\<rparr>)))
      | _ \<Rightarrow> Break s)"

text \<open>
  The two retrying handlers (\<^verbatim>\<open>except requests.HTTPError\<close> and
  \<^verbatim>\<open>except requests.RequestException\<close>) do the same.
\<close>

definition handle_transient :: "int \<Rightarrow> fetch_state \<Rightarrow> step" where
  "handle_transient max_retries s =
     (let s' = s\<lparr>retries := retries s + 1\<rparr> in
      if retries s' \<ge> max_retries then Break s'
      else Continue (s'\<lparr>trace := trace s' @ [Sleep (2 ^ nat (retries s'))]\<rparr>))"

definition handle_response :: "int \<Rightarrow> int \<Rightarrow> response \<Rightarrow> fetch_state \<Rightarrow> step" where
  "handle_response per_page max_retries r s =
     (case r of
        Body data \<Rightarrow> handle_body per_page data s
      | HTTPError \<Rightarrow> handle_transient max_retries s
      | RequestException \<Rightarrow> handle_transient max_retries s
      | UnexpectedError \<Rightarrow> Break s)"

text \<open>
  The \<^verbatim>\<open>while True\<close> loop. The listing endpoint is the script of its answers, one per
  request, in the order of the requests. The loop can go on for ever (no page cap, every
  page full), so it returns \<open>None\<close> when it asks for an answer the script does not
  hold, and \<open>Some\<close> of its final state when it breaks.
\<close>

fun paginate :: "int \<Rightarrow> int option \<Rightarrow> int \<Rightarrow> response list \<Rightarrow> fetch_state \<Rightarrow> fetch_state option" where
  "paginate per_page max_pages max_retries [] s =
     (if cap_reached max_pages (page s) then Some s else None)"
| "paginate per_page max_pages max_retries (r # script) s =
     (if cap_reached max_pages (page s) then Some s
      else (case handle_response per_page max_retries r (s\<lparr>trace := trace s @ [Request (page s)]\<rparr>) of
              Break s' \<Rightarrow> Some s'
            | Continue s' \<Rightarrow> paginate per_page max_pages max_retries script s'))"

definition initial_state :: fetch_state where
  "initial_state = \<lparr>page = 1, retries = 0, all_shallow = [], trace = []\<rparr>"

section \<open>DetailEnricher: \<^verbatim>\<open>fetch_full_document\<close> and the thread pool\<close>

datatype error = AttributeError | ProgrammingError | DatabaseError | ValueError

text \<open>
  The detail endpoint: for a document number, a failure (any exception of the request)
  or the decoded body.
\<close>

datatype detail_response = DetailFailed | DetailBody json

definition fetch_full_document :: "(json \<Rightarrow> detail_response) \<Rightarrow> json \<Rightarrow> json" where
  "fetch_full_document detail doc_number =
     (case detail doc_number of DetailFailed \<Rightarrow> JObj [] | DetailBody j \<Rightarrow> j)"

text \<open>
  The submission loop: \<^verbatim>\<open>doc.get\<close> on a record that is not a dictionary raises
  \<^verbatim>\<open>AttributeError\<close>, which nothing catches; a record with no truthy
  \<^verbatim>\<open>document_number\<close> or \<^verbatim>\<open>id\<close> is passed over (\<^verbatim>\<open>continue\<close>).
\<close>

fun submit_all :: "json list \<Rightarrow> error + (json \<times> json) list" where
  "submit_all [] = Inr []"
| "submit_all (doc # docs) =
     (case doc of
        JObj kvs \<Rightarrow>
          (let doc_num = py_or (dict_get kvs ''document_number'') (dict_get kvs ''id'') in
           case submit_all docs of
             Inl e \<Rightarrow> Inl e
           | Inr futures \<Rightarrow> Inr (if \<not> truthy doc_num then futures else (doc, doc_num) # futures))
      | _ \<Rightarrow> Inl AttributeError)"

text \<open>
  One completed future: \<^verbatim>\<open>merged = {**doc_shallow, **(full or {})}\<close>; a \<open>full\<close> that
  is truthy and not a dictionary raises \<^verbatim>\<open>TypeError\<close>, and the handler appends the
  shallow record.
\<close>

definition merge_one :: "(json \<Rightarrow> detail_response) \<Rightarrow> json \<times> json \<Rightarrow> json" where
  "merge_one detail f =
     (let doc_shallow = fst f; full = fetch_full_document detail (snd f);
          overlay = (if truthy full then full else JObj [])
      in case (doc_shallow, overlay) of
           (JObj kvs, JObj fkvs) \<Rightarrow> JObj (dict_merge kvs fkvs)
         | _ \<Rightarrow> doc_shallow)"

text \<open>
  \<^verbatim>\<open>as_completed\<close> yields every submitted future once, in the order the workers
  finish: the parameter \<open>as_completed\<close> is that order.
\<close>

definition enrich ::
  "(json \<Rightarrow> detail_response) \<Rightarrow> ((json \<times> json) list \<Rightarrow> (json \<times> json) list) \<Rightarrow> json list \<Rightarrow> error + json list" where
  "enrich detail as_completed shallow =
     (case submit_all shallow of
        Inl e \<Rightarrow> Inl e
      | Inr futures \<Rightarrow> Inr (map (merge_one detail) (as_completed futures)))"


section \<open>Notions used to state the properties of the fetcher\<close>

text \<open>
  A full listing page: a dictionary whose \<^verbatim>\<open>results\<close> is a non-empty list of at least
  \<open>per_page\<close> records. The pair holds the dictionary and its records.
\<close>

definition full_page :: "int \<Rightarrow> (string \<times> json) list \<times> json list \<Rightarrow> bool" where
  "full_page per_page p = (map_of (fst p) ''results'' = Some (JList (snd p)) \<and> snd p \<noteq> [] \<and> per_page \<le> int (length (snd p)))"


text \<open>A structurally valid response: a dictionary with a \<^verbatim>\<open>results\<close> key.\<close>

definition is_listing :: "json \<Rightarrow> bool" where
  "is_listing data = (case data of JObj kvs \<Rightarrow> ''results'' \<in> fst ` set kvs | _ \<Rightarrow> False)"


text \<open>Stub listing pages: \<open>n\<close> copies of one shallow record.\<close>

definition stub_doc :: json where
  "stub_doc = JObj [(''document_number'', JStr ''2024-00001'')]"

definition stub_page :: "nat \<Rightarrow> (string \<times> json) list" where
  "stub_page n = [(''results'', JList (replicate n stub_doc))]"

section \<open>Notions used to state the properties of the enricher\<close>

text \<open>A shallow record that is a dictionary.\<close>

definition is_dict :: "json \<Rightarrow> bool" where
  "is_dict d = (case d of JObj kvs \<Rightarrow> True | _ \<Rightarrow> False)"

text \<open>
  The document number the submission loop resolves for a record:
  \<^verbatim>\<open>doc.get('document_number') or doc.get('id')\<close>.
\<close>

definition doc_number_of :: "json \<Rightarrow> json" where
  "doc_number_of d =
     (case d of JObj kvs \<Rightarrow> py_or (dict_get kvs ''document_number'') (dict_get kvs ''id'') | _ \<Rightarrow> JNull)"

definition resolvable :: "json \<Rightarrow> bool" where
  "resolvable d = truthy (doc_number_of d)"

text \<open>The futures submitted for a list of dictionaries, in the order of submission.\<close>

definition pending :: "json list \<Rightarrow> (json \<times> json) list" where
  "pending shallow = map (\<lambda>d. (d, doc_number_of d)) (filter resolvable shallow)"

text \<open>Stub detail endpoints and shallow records.\<close>

definition stub_detail :: "json \<Rightarrow> detail_response" where
  "stub_detail n =
     (if n = JStr ''2024-00001''
      then DetailBody (JObj [(''title'', JStr ''Full title''), (''abstract'', JStr ''Text'')])
      else DetailFailed)"

definition detail_unavailable :: "json \<Rightarrow> detail_response" where
  "detail_unavailable n = DetailFailed"

definition shallow_a :: json where
  "shallow_a = JObj [(''document_number'', JStr ''2024-00001''), (''title'', JStr ''Short title'')]"

definition shallow_b :: json where
  "shallow_b = JObj [(''id'', JStr ''2024-00002'')]"

section \<open>Strings of Python\<close>

text \<open>
  A Python \<^verbatim>\<open>str\<close> is a sequence of Unicode code points, and the retrieval layer works
  on the characters of its texts: there a string is the list of its code points, the
  integers \<^verbatim>\<open>ord\<close> gives. A literal of the source is the list of the codes of its
  characters, which are ASCII.
\<close>

type_synonym codepoint = int

type_synonym str = "codepoint list"

definition lit :: "string \<Rightarrow> str" where
  "lit s = map of_char s"

text \<open>
  \<^verbatim>\<open>str.strip()\<close> and \<^verbatim>\<open>str.split()\<close> treat as whitespace the characters for which
  \<^verbatim>\<open>str.isspace()\<close> holds: tab to carriage return, the separators U+001C to U+001F, the
  space, U+0085, U+00A0, U+1680, U+2000 to U+200A, U+2028, U+2029, U+202F, U+205F and
  U+3000.
\<close>

definition is_space :: "codepoint \<Rightarrow> bool" where
  "is_space c \<longleftrightarrow>
     (9 \<le> c \<and> c \<le> 13) \<or> (28 \<le> c \<and> c \<le> 32) \<or> c = 0x85 \<or> c = 0xA0 \<or> c = 0x1680
     \<or> (0x2000 \<le> c \<and> c \<le> 0x200A) \<or> c = 0x2028 \<or> c = 0x2029 \<or> c = 0x202F
     \<or> c = 0x205F \<or> c = 0x3000"

definition py_strip :: "str \<Rightarrow> str" where
  "py_strip s = rev (dropWhile is_space (rev (dropWhile is_space s)))"

text \<open>
  What the interpreter and its Unicode database decide and the repository does not: the
  value of \<^verbatim>\<open>str.lower()\<close> on a string that has a character outside ASCII; whether a
  character outside ASCII counts as a digit for \<^verbatim>\<open>str.isdigit()\<close>; and the value of
  \<^verbatim>\<open>int(s)\<close> (\<open>None\<close>: it raises \<^verbatim>\<open>ValueError\<close>) on a string that is not a run of at
  most 640 ASCII digits.
\<close>

record interpreter =
  unicode_lower :: "str \<Rightarrow> str"
  unicode_isdigit :: "codepoint \<Rightarrow> bool"
  int_of_str :: "str \<Rightarrow> int option"

definition is_ascii :: "str \<Rightarrow> bool" where
  "is_ascii s = list_all (\<lambda>c. 0 \<le> c \<and> c < 128) s"

definition ascii_lower :: "codepoint \<Rightarrow> codepoint" where
  "ascii_lower c = (if 65 \<le> c \<and> c \<le> 90 then c + 32 else c)"

text \<open>\<^verbatim>\<open>str.lower()\<close>: on ASCII text the letters A to Z become a to z.\<close>

definition py_lower :: "interpreter \<Rightarrow> str \<Rightarrow> str" where
  "py_lower py s = (if is_ascii s then map ascii_lower s else unicode_lower py s)"

definition startswith :: "'a list \<Rightarrow> 'a list \<Rightarrow> bool" where
  "startswith s p = (take (length p) s = p)"

text \<open>The maximal runs of characters that satisfy \<open>P\<close>, from left to right.\<close>

function runs :: "('a \<Rightarrow> bool) \<Rightarrow> 'a list \<Rightarrow> 'a list list" where
  "runs P [] = []"
| "runs P (c # cs) = (if P c then (c # takeWhile P cs) # runs P (dropWhile P cs) else runs P cs)"
  by pat_completeness auto

termination
  by (relation "measure (\<lambda>(P, s). length s)") (auto simp: length_dropWhile_le less_Suc_eq_le)

text \<open>\<^verbatim>\<open>str.split()\<close> with no argument.\<close>

definition py_split :: "str \<Rightarrow> str list" where
  "py_split s = runs (\<lambda>c. \<not> is_space c) s"

text \<open>
  \<^verbatim>\<open>str.isdigit()\<close>: the string is not empty and all its characters are digits; the
  ASCII digits are 0 to 9.
\<close>

definition is_digit_char :: "interpreter \<Rightarrow> codepoint \<Rightarrow> bool" where
  "is_digit_char py c = (if c < 128 then 48 \<le> c \<and> c \<le> 57 else unicode_isdigit py c)"

definition isdigit :: "interpreter \<Rightarrow> str \<Rightarrow> bool" where
  "isdigit py s = (s \<noteq> [] \<and> list_all (is_digit_char py) s)"

text \<open>
  \<^verbatim>\<open>int(s)\<close>: a run of ASCII digits is read in base ten. The interpreter may refuse a
  string of more digits than a limit it sets, which is never below 640; it reads the
  decimal digits of other scripts and refuses the other characters that
  \<^verbatim>\<open>str.isdigit()\<close> accepts (the superscript two, for one).
\<close>

definition int_of_digits :: "str \<Rightarrow> int" where
  "int_of_digits s = foldl (\<lambda>a c. 10 * a + (c - 48)) 0 s"

definition py_int :: "interpreter \<Rightarrow> str \<Rightarrow> error + int" where
  "py_int py s =
     (if s \<noteq> [] \<and> list_all (\<lambda>c. 48 \<le> c \<and> c \<le> 57) s \<and> length s \<le> 640 then Inr (int_of_digits s)
      else case int_of_str py s of None \<Rightarrow> Inl ValueError | Some i \<Rightarrow> Inr i)"

text \<open>
  \<^verbatim>\<open>re.findall(r"[A-Za-z0-9\-']+", s)\<close>: the class names its characters, all of them
  ASCII, and the pattern is compiled without flags.
\<close>

definition is_token_char :: "codepoint \<Rightarrow> bool" where
  "is_token_char c \<longleftrightarrow>
     (65 \<le> c \<and> c \<le> 90) \<or> (97 \<le> c \<and> c \<le> 122) \<or> (48 \<le> c \<and> c \<le> 57) \<or> c = 45 \<or> c = 39"

definition findall_tokens :: "str \<Rightarrow> str list" where
  "findall_tokens s = runs is_token_char s"

section \<open>IntentRouter: \<^verbatim>\<open>FederalAgent.chat\<close>\<close>

text \<open>
  What \<^verbatim>\<open>chat\<close> returns: a fixed text, the result of \<^verbatim>\<open>self.run(query, filters, limit)\<close>
  (the agency filter is \<open>None\<close> for \<^verbatim>\<open>{}\<close>; the default limit is 25), or the help text
  formatted from the metadata.
\<close>

datatype reply = Text str | Run str "str option" int | HelpText

definition please_provide :: str where
  "please_provide = lit ''Please provide a query. Use `help` for examples.''"

definition usage_recent :: str where
  "usage_recent = lit ''Usage: recent <N>''"

definition usage_find :: str where
  "usage_find = lit ''Usage: find <agency>''"

definition usage_search :: str where
  "usage_search = lit ''Usage: search <keyword>''"

text \<open>The refusal; its bullets are U+2022 and its lines end in a line feed.\<close>

definition refusal_message :: str where
  "refusal_message =
     lit ''This assistant strictly answers **Federal Register / U.S. regulatory** queries only.''
     @ [0x0A, 0x0A]
     @ lit ''Try one of the following:'' @ [0x0A]
     @ [0x2022] @ lit '' `search <keyword>`'' @ [0x0A]
     @ [0x2022] @ lit '' `find <agency>`'' @ [0x0A]
     @ [0x2022] @ lit '' `recent <N>`'' @ [0x0A]
     @ [0x2022] @ lit '' `help`'' @ [0x0A]"

text \<open>
  The snapshot \<^verbatim>\<open>_get_help_metadata\<close> returns: the lists under \<^verbatim>\<open>keywords\<close>,
  \<^verbatim>\<open>agencies\<close> and \<^verbatim>\<open>document_types\<close>. Their entries are strings: tokens of the
  titles, values of the columns \<^verbatim>\<open>agencies.name\<close> and
  \<^verbatim>\<open>documents.document_type\<close>, and, when the table of agencies is empty, the agency
  names of the stored payloads, which the API gives as strings.
\<close>

record metadata =
  meta_keywords :: "str list"
  meta_agencies :: "str list"
  meta_document_types :: "str list"

definition cmd_prefixes :: "str list" where
  "cmd_prefixes =
     [lit ''search '', lit ''find '', lit ''recent'', lit ''help'', lit ''get '', lit ''show '']"

text \<open>
  The loop over \<^verbatim>\<open>cmd_prefixes\<close>: at the first prefix that matches, the body returns
  from one of its four handlers or breaks; the handlers test \<open>lower\<close>, not the prefix.
  \<open>None\<close>: the loop ended without a return. \<^verbatim>\<open>int(parts[1])\<close> can raise, and nothing
  in \<^verbatim>\<open>chat\<close> catches it.
\<close>

definition command_reply :: "interpreter \<Rightarrow> str \<Rightarrow> str \<Rightarrow> (error + reply) option" where
  "command_reply py lower msg =
     (if list_ex (\<lambda>p. lower = py_strip p \<or> startswith lower p) cmd_prefixes then
        (if startswith lower (lit ''recent'') then
           (let parts = py_split msg in
            if length parts = 2 \<and> isdigit py (parts ! 1)
            then (case py_int py (parts ! 1) of
                    Inl e \<Rightarrow> Some (Inl e)
                  | Inr n \<Rightarrow> Some (Inr (Run [] None n)))
            else Some (Inr (Text usage_recent)))
         else if startswith lower (lit ''find '') then
           (let agency = py_strip (drop (length (lit ''find '')) msg) in
            if agency = [] then Some (Inr (Text usage_find))
            else Some (Inr (Run [] (Some agency) 25)))
         else if startswith lower (lit ''search '') then
           (let q = py_strip (drop (length (lit ''search '')) msg) in
            if q = [] then Some (Inr (Text usage_search))
            else Some (Inr (Run q None 25)))
         else if lower = lit ''help'' then Some (Inr HelpText)
         else None)
      else None)"

definition domain_tokens :: "interpreter \<Rightarrow> metadata \<Rightarrow> str set" where
  "domain_tokens py meta =
     set (concat (map (\<lambda>k. findall_tokens (py_lower py k))
                      (meta_keywords meta @ meta_agencies meta @ meta_document_types meta)))"

text \<open>
  \<^verbatim>\<open>len(overlap) / max(1, len(msg_tokens))\<close>. The quotient and the thresholds are
  exact here; Python computes them in binary floating point, which gives the same
  comparisons as long as the message has fewer than \<open>2 ^ 46\<close> distinct tokens.
\<close>

definition overlap_ratio :: "interpreter \<Rightarrow> metadata \<Rightarrow> str list \<Rightarrow> real" where
  "overlap_ratio py meta tokens =
     real (card (set tokens \<inter> domain_tokens py meta)) / real (max 1 (card (set tokens)))"

definition chat :: "interpreter \<Rightarrow> metadata \<Rightarrow> str \<Rightarrow> error + reply" where
  "chat py meta message =
     (let msg = py_strip message in
      if msg = [] then Inr (Text please_provide)
      else
        let lower = py_strip (py_lower py msg) in
        case command_reply py lower msg of
          Some r \<Rightarrow> r
        | None \<Rightarrow>
            let tokens = findall_tokens lower in
            if tokens = [] then Inr (Text please_provide)
            else
              let ratio = overlap_ratio py meta tokens in
              if length tokens \<le> 2 \<and> ratio \<ge> 0.33 then Inr (Run lower None 25)
              else if length tokens > 2 \<and> ratio \<ge> 0.18 then Inr (Run lower None 25)
              else Inr (Text refusal_message))"

section \<open>Notions used to state the properties of the intent gate\<close>

text \<open>
  A stub interpreter. On ASCII text and on numbers of at most 640 digits the functions
  above never consult it.
\<close>

definition stub_interpreter :: interpreter where
  "stub_interpreter =
     \<lparr>unicode_lower = (\<lambda>s. s), unicode_isdigit = (\<lambda>c. False), int_of_str = (\<lambda>s. None)\<rparr>"

text \<open>
  An interpreter that knows a few facts of Unicode: the lowercase of the Kelvin sign
  U+212A is the letter k; the Arabic-Indic digit three U+0663 and the superscript two
  U+00B2 are digits; \<^verbatim>\<open>int\<close> reads the first as 3 and refuses the second.
\<close>

definition sample_interpreter :: interpreter where
  "sample_interpreter =
     \<lparr>unicode_lower = map (\<lambda>c. if c = 0x212A then 0x6B else ascii_lower c),
      unicode_isdigit = (\<lambda>c. c = 0x663 \<or> c = 0xB2),
      int_of_str = (\<lambda>s. if s = [0x663] then Some 3 else None)\<rparr>"

text \<open>Snapshots with one agency: its name with the letter k, and with the Kelvin sign.\<close>

definition park_metadata :: metadata where
  "park_metadata = \<lparr>meta_keywords = [], meta_agencies = [lit ''National Park Service''],
      meta_document_types = []\<rparr>"

definition kelvin_metadata :: metadata where
  "kelvin_metadata = \<lparr>meta_keywords = [], meta_agencies = [lit ''Par'' @ [0x212A] @ lit '' Service''],
      meta_document_types = []\<rparr>"

definition stub_metadata :: metadata where
  "stub_metadata = \<lparr>meta_keywords = [lit ''pesticide'', lit ''recent''],
      meta_agencies = [lit ''Environmental Protection Agency''],
      meta_document_types = [lit ''Rule'']\<rparr>"

text \<open>The input that is one word repeated \<open>n\<close> times, the copies one space apart.\<close>

definition repeat_word :: "str \<Rightarrow> nat \<Rightarrow> str" where
  "repeat_word w n = join [32] (replicate n w)"

text \<open>A snapshot whose only keyword is \<^verbatim>\<open>recent\<close>.\<close>

definition recent_metadata :: metadata where
  "recent_metadata = \<lparr>meta_keywords = [lit ''recent''], meta_agencies = [], meta_document_types = []\<rparr>"

section \<open>The relational store\<close>

text \<open>
  A value of a column or of a statement parameter: \<^verbatim>\<open>NULL\<close>, an integer, a text, or a
  real number (the relevance score of a fulltext match). A row gives each column its
  value. Dates are texts \<^verbatim>\<open>YYYY-MM-DD\<close>, whose lexicographic order is the order of
  the dates.
\<close>

datatype sqlval = SNull | SInt int | SStr string | SReal real

type_synonym row = "(string \<times> sqlval) list"

definition col :: "row \<Rightarrow> string \<Rightarrow> sqlval" where
  "col r c = (case map_of r c of None \<Rightarrow> SNull | Some v \<Rightarrow> v)"

text \<open>
  The tables are \<^verbatim>\<open>CHARACTER SET utf8mb4\<close>: a text is stored in UTF-8, and the server
  compares it character by character. The code point of a character is read from its
  bytes.
\<close>

definition utf8_code :: "string \<Rightarrow> codepoint" where
  "utf8_code bs =
     (case bs of
        [] \<Rightarrow> 0
      | b # cs \<Rightarrow>
          foldl (\<lambda>a c. a * 64 + (of_char c :: int) mod 64)
            (let n = (of_char b :: int) in
             if n < 0xC0 then n else if n < 0xE0 then n - 0xC0 else if n < 0xF0 then n - 0xE0 else n - 0xF0)
            cs)"

definition text_of :: "string \<Rightarrow> str" where
  "text_of s = map utf8_code (utf8_chars s)"

text \<open>
  \<^verbatim>\<open>text LIKE pattern\<close>: \<^verbatim>\<open>%\<close> matches any sequence of characters, \<^verbatim>\<open>_\<close> any one
  character, and the backslash makes the next character of the pattern literal. Any other
  character of the pattern matches the characters that the collation of the column holds
  equal to it; both tables are declared \<^verbatim>\<open>COLLATE utf8mb4_unicode_ci\<close>, which ignores the
  case of letters and their accents. The relation \<open>eq\<close> is that equality of characters.
\<close>

fun like_match :: "(codepoint \<Rightarrow> codepoint \<Rightarrow> bool) \<Rightarrow> str \<Rightarrow> str \<Rightarrow> bool" where
  "like_match eq [] t = (t = [])"
| "like_match eq (p # ps) t =
     (if p = 37 then
        (like_match eq ps t \<or> (case t of [] \<Rightarrow> False | c # cs \<Rightarrow> like_match eq (p # ps) cs))
      else if p = 95 then
        (case t of [] \<Rightarrow> False | c # cs \<Rightarrow> like_match eq ps cs)
      else if p = 92 then
        (case ps of
           [] \<Rightarrow> (case t of [] \<Rightarrow> False | c # cs \<Rightarrow> eq c p \<and> cs = [])
         | e # ps' \<Rightarrow> (case t of [] \<Rightarrow> False | c # cs \<Rightarrow> eq c e \<and> like_match eq ps' cs))
      else
        (case t of [] \<Rightarrow> False | c # cs \<Rightarrow> eq c p \<and> like_match eq ps cs))"

definition sql_like :: "(codepoint \<Rightarrow> codepoint \<Rightarrow> bool) \<Rightarrow> sqlval \<Rightarrow> str \<Rightarrow> bool" where
  "sql_like eq v pattern = (case v of SStr s \<Rightarrow> like_match eq pattern (text_of s) | _ \<Rightarrow> False)"

section \<open>QueryEngine: \<^verbatim>\<open>FederalAgent._query_mysql\<close>\<close>

text \<open>
  What the MySQL server contributes and the repository does not define:
  whether the connection opens; the answer of the probe
  \<^verbatim>\<open>SHOW INDEX ... WHERE Index_type='FULLTEXT'\<close> (\<open>None\<close>: the probe raises);
  the relevance \<^verbatim>\<open>MATCH(...) AGAINST (q IN NATURAL LANGUAGE MODE)\<close> gives each row
  (\<open>None\<close>: the statement raises);
  \<^verbatim>\<open>JSON_CONTAINS(agencies, JSON_OBJECT('name', a))\<close>; and which characters the
  collation \<^verbatim>\<open>utf8mb4_unicode_ci\<close> holds equal.
\<close>

record engine =
  connects :: bool
  fulltext_index :: "bool option"
  match_against :: "str \<Rightarrow> (row \<Rightarrow> real) option"
  json_contains_name :: "sqlval \<Rightarrow> str \<Rightarrow> bool"
  collation_eq :: "codepoint \<Rightarrow> codepoint \<Rightarrow> bool"

definition searchable_columns :: "string list" where
  "searchable_columns = [''title'', ''abstract'', ''excerpt'', ''full_text'', ''raw_json'']"

definition selected_columns :: "string list" where
  "selected_columns =
     [''id'', ''title'', ''abstract'', ''excerpt'', ''document_type'', ''publication_date'', ''agencies'']"

definition select_columns :: "string list \<Rightarrow> row \<Rightarrow> row" where
  "select_columns cs r = map (\<lambda>c. (c, col r c)) cs"

text \<open>
  \<^verbatim>\<open>ORDER BY publication_date DESC\<close>: \<^verbatim>\<open>NULL\<close> is the least value, so it comes last.
  SQL leaves the order of rows with equal dates open; the model keeps one.
\<close>

definition date_key :: "row \<Rightarrow> string option" where
  "date_key r = (case col r ''publication_date'' of SStr s \<Rightarrow> Some s | _ \<Rightarrow> None)"

definition order_by_date_desc :: "row list \<Rightarrow> row list" where
  "order_by_date_desc rows = rev (sort_key date_key rows)"

text \<open>
  The statement once its \<^verbatim>\<open>WHERE\<close> condition and its select list are fixed: the agency
  filter is added when \<^verbatim>\<open>f.get("agency")\<close> is truthy, then
  \<^verbatim>\<open>ORDER BY publication_date DESC LIMIT %s\<close>. A negative limit is a syntax error, and
  every exception makes \<^verbatim>\<open>_query_mysql\<close> return \<^verbatim>\<open>[]\<close>.
\<close>

definition run_select ::
  "engine \<Rightarrow> row list \<Rightarrow> (row \<Rightarrow> bool) \<Rightarrow> (row \<Rightarrow> row) \<Rightarrow> str option \<Rightarrow> int \<Rightarrow> row list" where
  "run_select eng docs cond select_list agency limit =
     (let agency_ok = (\<lambda>r. case agency of
                              None \<Rightarrow> True
                            | Some a \<Rightarrow> a = [] \<or> json_contains_name eng (col r ''agencies'') a)
      in if limit < 0 then []
         else take (nat limit)
                (map select_list (order_by_date_desc (filter (\<lambda>r. cond r \<and> agency_ok r) docs))))"

definition query_mysql :: "engine \<Rightarrow> row list \<Rightarrow> str \<Rightarrow> str option \<Rightarrow> int \<Rightarrow> row list" where
  "query_mysql eng docs query agency limit =
     (if \<not> connects eng then []
      else
        let q = py_strip query;
            use_fulltext = (case fulltext_index eng of None \<Rightarrow> False | Some idx \<Rightarrow> idx)
        in if q \<noteq> [] \<and> use_fulltext then
             (case match_against eng q of
                None \<Rightarrow> []
              | Some relevance \<Rightarrow>
                  run_select eng docs (\<lambda>r. relevance r \<noteq> 0)
                    (\<lambda>r. select_columns selected_columns r @ [(''relevance'', SReal (relevance r))])
                    agency limit)
           else if q \<noteq> [] then
             (let like = lit ''%'' @ q @ lit ''%'' in
              run_select eng docs
                (\<lambda>r. list_ex (\<lambda>c. sql_like (collation_eq eng) (col r c) like) searchable_columns)
                (select_columns selected_columns) agency limit)
           else run_select eng docs (\<lambda>r. True) (select_columns selected_columns) agency limit)"

section \<open>Notions used to state the properties of the query engine\<close>

text \<open>
  The text \<open>s\<close> contains \<open>q\<close> up to the equality \<open>eq\<close> of characters: at some position of
  \<open>s\<close> there are as many characters as \<open>q\<close> has, each equal to its counterpart in \<open>q\<close>.
\<close>

definition occurs_in :: "(codepoint \<Rightarrow> codepoint \<Rightarrow> bool) \<Rightarrow> str \<Rightarrow> str \<Rightarrow> bool" where
  "occurs_in eq q s =
     list_ex (\<lambda>k. list_all2 eq (take (length q) (drop k s)) q) [0 ..< Suc (length s)]"

definition wildcard_free :: "str \<Rightarrow> bool" where
  "wildcard_free q = list_all (\<lambda>c. c \<noteq> 37 \<and> c \<noteq> 95 \<and> c \<noteq> 92) q"

definition field_contains :: "engine \<Rightarrow> str \<Rightarrow> row \<Rightarrow> bool" where
  "field_contains eng q r =
     list_ex (\<lambda>c. case col r c of SStr s \<Rightarrow> occurs_in (collation_eq eng) q (text_of s) | _ \<Rightarrow> False)
       searchable_columns"

text \<open>
  A server without a fulltext index. Its collation is a stub that holds two characters
  equal when they are the same ASCII letter in either case, which is what
  \<^verbatim>\<open>utf8mb4_unicode_ci\<close> does on printable ASCII text.
\<close>

definition plain_engine :: engine where
  "plain_engine = \<lparr>connects = True, fulltext_index = Some False,
      match_against = (\<lambda>q. None), json_contains_name = (\<lambda>v a. False),
      collation_eq = (\<lambda>c d. ascii_lower c = ascii_lower d)\<rparr>"

text \<open>
  The same server with a collation that also holds U+00F1 (n with tilde) equal to the
  letter n.
\<close>

definition accent_engine :: engine where
  "accent_engine = plain_engine\<lparr>collation_eq :=
      (\<lambda>c d. (if c = 0xF1 then 0x6E else ascii_lower c) = (if d = 0xF1 then 0x6E else ascii_lower d))\<rparr>"

text \<open>A stored document with the given number, title and publication date.\<close>

definition doc_row :: "string \<Rightarrow> string \<Rightarrow> string \<Rightarrow> row" where
  "doc_row i t d =
     [(''id'', SStr i), (''title'', SStr t), (''abstract'', SNull), (''excerpt'', SNull),
      (''document_type'', SStr ''Rule''), (''publication_date'', SStr d), (''agencies'', SNull),
      (''full_text'', SNull),
      (''raw_json'', SStr (dumps False (JObj [(''document_number'', JStr i), (''title'', JStr t),
                                              (''publication_date'', JStr d)])))]"

text \<open>Three stored documents.\<close>

definition stored_documents :: "row list" where
  "stored_documents =
     [doc_row ''2024-00001'' ''Pesticide tolerances'' ''2024-01-05'',
      doc_row ''2024-00002'' ''Air quality'' ''2024-02-01'',
      doc_row ''2024-00003'' ''PESTICIDES; exemptions'' ''2024-03-01'']"

section \<open>PersistenceLayer: the MySQL statements of \<^verbatim>\<open>process_documents\<close>\<close>

text \<open>
  What the libraries and the server contribute: \<^verbatim>\<open>hashlib.sha256(...).hexdigest()\<close>,
  \<^verbatim>\<open>str()\<close> of a list or a dictionary, whether
  \<^verbatim>\<open>datetime.strptime(s, '%Y-%m-%d')\<close> accepts a string, and whether the server holds
  a value of a key column equal to another value (under \<^verbatim>\<open>utf8mb4_unicode_ci\<close> for
  two texts, which ignores the case of letters, their accents and trailing spaces).
\<close>

record libs =
  lib_sha256 :: "string \<Rightarrow> string"
  lib_repr :: "json \<Rightarrow> string"
  lib_strptime_ok :: "string \<Rightarrow> bool"
  lib_sql_eq :: "sqlval \<Rightarrow> sqlval \<Rightarrow> bool"

text \<open>
  The store: the rows of the tables \<^verbatim>\<open>documents\<close> and \<^verbatim>\<open>agencies\<close>, the next
  \<^verbatim>\<open>AUTO_INCREMENT\<close> value of \<^verbatim>\<open>agencies.id\<close> and the value of
  \<^verbatim>\<open>CURRENT_TIMESTAMP\<close>.
\<close>

record database =
  documents :: "row list"
  agency_rows :: "row list"
  next_agency_id :: int
  clock :: int

datatype stmt = SelectContentHash | UpsertDocument | InsertIgnoreAgency

text \<open>
  The three statements as the source writes them (the line breaks of the second are
  written as spaces).
\<close>

definition sql_text :: "stmt \<Rightarrow> string" where
  "sql_text st =
     (case st of
        SelectContentHash \<Rightarrow> ''SELECT content_hash FROM documents WHERE id = %s''
      | UpsertDocument \<Rightarrow>
      ''INSERT INTO documents ( '' @
      ''id, document_number, title, abstract, document_type, '' @
      ''publication_date, start_page, end_page, page_length, '' @
      ''pdf_url, html_url, agencies, excerpt, full_text, '' @
      ''docket_ids, cfr_references, comments_close_on, action, '' @
      ''raw_json, content_hash '' @
      '') VALUES (%s, %s, %s, %s, %s, %s, %s, %s, %s, %s, %s, %s, %s, %s, %s, %s, %s, %s, %s) '' @
      ''ON DUPLICATE KEY UPDATE '' @
      ''title = VALUES(title), '' @
      ''abstract = VALUES(abstract), '' @
      ''document_type = VALUES(document_type), '' @
      ''publication_date = VALUES(publication_date), '' @
      ''start_page = VALUES(start_page), '' @
      ''end_page = VALUES(end_page), '' @
      ''page_length = VALUES(page_length), '' @
      ''pdf_url = VALUES(pdf_url), '' @
      ''html_url = VALUES(html_url), '' @
      ''agencies = VALUES(agencies), '' @
      ''excerpt = VALUES(excerpt), '' @
      ''full_text = VALUES(full_text), '' @
      ''docket_ids = VALUES(docket_ids), '' @
      ''cfr_references = VALUES(cfr_references), '' @
      ''comments_close_on = VALUES(comments_close_on), '' @
      ''action = VALUES(action), '' @
      ''raw_json = VALUES(raw_json), '' @
      ''content_hash = VALUES(content_hash), '' @
      ''last_updated = CURRENT_TIMESTAMP ''
      | InsertIgnoreAgency \<Rightarrow>
          ''INSERT IGNORE INTO agencies (document_id, name, raw_json) VALUES (%s, %s, %s)'')"

text \<open>
  \<^verbatim>\<open>cursor.execute(operation, params)\<close> of mysql.connector: every parameter is
  converted (a list or a dictionary cannot be), each \<^verbatim>\<open>%s\<close> of the statement takes the
  next parameter, and the call raises \<^verbatim>\<open>ProgrammingError\<close> when the parameters are too
  few or when some are left over. (A statement that reached the server with fewer values
  than columns would be rejected there.)
\<close>

fun count_placeholders :: "string \<Rightarrow> nat" where
  "count_placeholders (a # b # cs) =
     (if a = CHR ''%'' \<and> b = CHR ''s'' then Suc (count_placeholders cs)
      else count_placeholders (b # cs))"
| "count_placeholders cs = 0"

fun to_mysql :: "json \<Rightarrow> error + sqlval" where
  "to_mysql JNull = Inr SNull"
| "to_mysql (JBool b) = Inr (SInt (if b then 1 else 0))"
| "to_mysql (JInt i) = Inr (SInt i)"
| "to_mysql (JStr s) = Inr (SStr s)"
| "to_mysql (JList xs) = Inl ProgrammingError"
| "to_mysql (JObj kvs) = Inl ProgrammingError"

fun process_params :: "json list \<Rightarrow> error + sqlval list" where
  "process_params [] = Inr []"
| "process_params (p # ps) =
     (case to_mysql p of
        Inl e \<Rightarrow> Inl e
      | Inr v \<Rightarrow> (case process_params ps of Inl e \<Rightarrow> Inl e | Inr vs \<Rightarrow> Inr (v # vs)))"

text \<open>
  \<^verbatim>\<open>=\<close> between a key column and a value, in \<^verbatim>\<open>WHERE id = %s\<close> and in the keys of
  the tables: \<^verbatim>\<open>NULL\<close> equals nothing, and the server decides the rest.
\<close>

definition sql_eq :: "libs \<Rightarrow> sqlval \<Rightarrow> sqlval \<Rightarrow> bool" where
  "sql_eq libs a b = (a \<noteq> SNull \<and> b \<noteq> SNull \<and> lib_sql_eq libs a b)"

definition document_columns :: "string list" where
  "document_columns =
     [''id'', ''document_number'', ''title'', ''abstract'', ''document_type'',
      ''publication_date'', ''start_page'', ''end_page'', ''page_length'', ''pdf_url'',
      ''html_url'', ''agencies'', ''excerpt'', ''full_text'', ''docket_ids'',
      ''cfr_references'', ''comments_close_on'', ''action'', ''raw_json'', ''content_hash'']"

definition updated_columns :: "string list" where
  "updated_columns =
     [''title'', ''abstract'', ''document_type'', ''publication_date'', ''start_page'',
      ''end_page'', ''page_length'', ''pdf_url'', ''html_url'', ''agencies'',
      ''excerpt'', ''full_text'', ''docket_ids'', ''cfr_references'', ''comments_close_on'',
      ''action'', ''raw_json'', ''content_hash'']"

text \<open>\<^verbatim>\<open>SELECT content_hash FROM documents WHERE id = %s\<close>: the digests of the matching rows.\<close>

definition select_content_hash :: "libs \<Rightarrow> database \<Rightarrow> sqlval \<Rightarrow> sqlval list" where
  "select_content_hash libs db p =
     map (\<lambda>r. col r ''content_hash'') (filter (\<lambda>r. sql_eq libs (col r ''id'') p) (documents db))"

text \<open>
  \<^verbatim>\<open>INSERT INTO documents (...) VALUES (...) ON DUPLICATE KEY UPDATE ...\<close>: a row whose
  primary key \<^verbatim>\<open>id\<close> equals the new one gets the listed columns and the current
  timestamp; without such a row the new row is added. The values are stored as given.
\<close>

definition update_row :: "row \<Rightarrow> int \<Rightarrow> row \<Rightarrow> row" where
  "update_row new now r =
     map (\<lambda>(c, v). if c \<in> set updated_columns then (c, col new c)
                     else if c = ''last_updated'' then (c, SInt now)
                     else (c, v)) r"

definition upsert_document :: "libs \<Rightarrow> database \<Rightarrow> sqlval list \<Rightarrow> database" where
  "upsert_document libs db ps =
     (let new = zip document_columns ps; k = col new ''id'' in
      if list_ex (\<lambda>r. sql_eq libs (col r ''id'') k) (documents db)
      then db\<lparr>documents := map (\<lambda>r. if sql_eq libs (col r ''id'') k then update_row new (clock db) r else r)
                                (documents db)\<rparr>
      else db\<lparr>documents := documents db @ [new @ [(''last_updated'', SInt (clock db))]]\<rparr>)"

text \<open>
  \<^verbatim>\<open>INSERT IGNORE INTO agencies (document_id, name, raw_json)\<close>: the row is added
  unless a row with the same \<^verbatim>\<open>(document_id, name)\<close> is there (the unique key
  \<^verbatim>\<open>unique_doc_agency\<close>) or no document has that id (the foreign key).
\<close>

definition insert_ignore_agency :: "libs \<Rightarrow> database \<Rightarrow> sqlval \<Rightarrow> sqlval \<Rightarrow> sqlval \<Rightarrow> database" where
  "insert_ignore_agency libs db d n raw =
     (if list_ex (\<lambda>r. sql_eq libs (col r ''document_id'') d \<and> sql_eq libs (col r ''name'') n) (agency_rows db)
         \<or> \<not> list_ex (\<lambda>r. sql_eq libs (col r ''id'') d) (documents db)
      then db
      else db\<lparr>agency_rows := agency_rows db @
                  [[(''id'', SInt (next_agency_id db)), (''document_id'', d), (''name'', n),
                    (''raw_json'', raw)]],
              next_agency_id := next_agency_id db + 1\<rparr>)"

definition run_statement ::
  "libs \<Rightarrow> stmt \<Rightarrow> sqlval list \<Rightarrow> database \<Rightarrow> error + (database \<times> sqlval list)" where
  "run_statement libs st ps db =
     (case st of
        SelectContentHash \<Rightarrow>
          (case ps of [p] \<Rightarrow> Inr (db, select_content_hash libs db p) | _ \<Rightarrow> Inl ProgrammingError)
      | UpsertDocument \<Rightarrow>
          (if length ps = length document_columns then Inr (upsert_document libs db ps, [])
           else Inl DatabaseError)
      | InsertIgnoreAgency \<Rightarrow>
          (case ps of [d, n, raw] \<Rightarrow> Inr (insert_ignore_agency libs db d n raw, [])
           | _ \<Rightarrow> Inl ProgrammingError))"

definition execute ::
  "libs \<Rightarrow> stmt \<Rightarrow> json list \<Rightarrow> database \<Rightarrow> error + (database \<times> sqlval list)" where
  "execute libs st params db =
     (case process_params params of
        Inl e \<Rightarrow> Inl e
      | Inr ps \<Rightarrow>
          if count_placeholders (sql_text st) \<noteq> length ps then Inl ProgrammingError
          else run_statement libs st ps db)"

section \<open>PersistenceLayer: \<^verbatim>\<open>process_documents\<close>\<close>

definition py_str :: "libs \<Rightarrow> json \<Rightarrow> string" where
  "py_str libs v =
     (case v of
        JStr s \<Rightarrow> s
      | JInt i \<Rightarrow> str_int i
      | JNull \<Rightarrow> ''None''
      | JBool b \<Rightarrow> (if b then ''True'' else ''False'')
      | _ \<Rightarrow> lib_repr libs v)"

text \<open>
  \<^verbatim>\<open>publication_date\<close>: the text before the first \<^verbatim>\<open>T\<close>, or \<^verbatim>\<open>None\<close> when the field is
  falsy or \<^verbatim>\<open>strptime\<close> rejects it.
\<close>

definition publication_date :: "libs \<Rightarrow> (string \<times> json) list \<Rightarrow> json" where
  "publication_date libs kvs =
     (let v = dict_get kvs ''publication_date'' in
      if truthy v then
        (let s = takeWhile (\<lambda>c. c \<noteq> CHR ''T'') (py_str libs v) in
         if lib_strptime_ok libs s then JStr s else JNull)
      else JNull)"

text \<open>\<^verbatim>\<open>json.dumps(doc.get(k, []), ensure_ascii=False) if doc.get(k) else None\<close>.\<close>

definition json_or_none :: "(string \<times> json) list \<Rightarrow> string \<Rightarrow> json" where
  "json_or_none kvs k =
     (if truthy (dict_get kvs k) then JStr (dumps False (dict_get_default kvs k (JList []))) else JNull)"

text \<open>The tuple \<^verbatim>\<open>values\<close>.\<close>

definition document_values :: "libs \<Rightarrow> (string \<times> json) list \<Rightarrow> json \<Rightarrow> string \<Rightarrow> json list" where
  "document_values libs kvs doc_num content_hash =
     [doc_num,
      dict_get_default kvs ''document_number'' (JStr []),
      dict_get kvs ''title'',
      dict_get kvs ''abstract'',
      py_or (dict_get kvs ''type'') (dict_get kvs ''document_type''),
      publication_date libs kvs,
      dict_get kvs ''start_page'',
      dict_get kvs ''end_page'',
      dict_get kvs ''page_length'',
      dict_get kvs ''pdf_url'',
      dict_get kvs ''html_url'',
      json_or_none kvs ''agencies'',
      dict_get kvs ''excerpt'',
      dict_get kvs ''full_text'',
      json_or_none kvs ''docket_ids'',
      json_or_none kvs ''cfr_references'',
      dict_get kvs ''comments_close_on'',
      dict_get kvs ''action'',
      JStr (dumps False (JObj kvs)),
      JStr content_hash]"

text \<open>
  The loop over the agencies of a document: an agency with a falsy name is passed over,
  and an exception of the insert is logged and swallowed.
\<close>

fun insert_agencies :: "libs \<Rightarrow> json \<Rightarrow> json list \<Rightarrow> database \<Rightarrow> database" where
  "insert_agencies libs doc_num [] db = db"
| "insert_agencies libs doc_num (agency # rest) db =
     (let name = (case agency of JObj akvs \<Rightarrow> dict_get akvs ''name'' | _ \<Rightarrow> JStr (py_str libs agency)) in
      if \<not> truthy name then insert_agencies libs doc_num rest db
      else (case execute libs InsertIgnoreAgency [doc_num, name, JStr (dumps False agency)] db of
              Inl e \<Rightarrow> insert_agencies libs doc_num rest db
            | Inr (db', rows) \<Rightarrow> insert_agencies libs doc_num rest db'))"

text \<open>
  What the loop logs for a document: the warning for a missing document number, the debug
  line of an unchanged document, nothing but the count for an upserted one, and the error
  of a failed one.
\<close>

datatype doc_event = NoDocumentNumber | Unchanged | Upserted | Failed error

record batch =
  store :: database
  processed_count :: nat
  skipped_count :: nat
  events :: "doc_event list"

definition failed :: "error \<Rightarrow> batch \<Rightarrow> batch" where
  "failed e b = b\<lparr>skipped_count := skipped_count b + 1, events := events b @ [Failed e]\<rparr>"

text \<open>The body of the loop for a document that is a dictionary.\<close>

definition process_doc :: "libs \<Rightarrow> (string \<times> json) list \<Rightarrow> batch \<Rightarrow> batch" where
  "process_doc libs kvs b =
     (let doc_num = py_or (dict_get kvs ''document_number'') (dict_get kvs ''id'') in
      if \<not> truthy doc_num
      then b\<lparr>skipped_count := skipped_count b + 1, events := events b @ [NoDocumentNumber]\<rparr>
      else
        let content_hash = compute_content_hash (lib_sha256 libs) (JObj kvs) in
        case execute libs SelectContentHash [doc_num] (store b) of
          Inl e \<Rightarrow> failed e b
        | Inr (db1, rows) \<Rightarrow>
            if (case rows of [] \<Rightarrow> False | h # hs \<Rightarrow> h = SStr content_hash)
            then b\<lparr>events := events b @ [Unchanged]\<rparr>
            else
              (case execute libs UpsertDocument (document_values libs kvs doc_num content_hash) db1 of
                 Inl e \<Rightarrow> failed e b
               | Inr (db2, none) \<Rightarrow>
                   let agencies = py_or (dict_get_default kvs ''agencies'' (JList [])) (JList []);
                       db3 = (case agencies of
                                JList as \<Rightarrow> insert_agencies libs doc_num as db2
                              | _ \<Rightarrow> db2)
                   in b\<lparr>store := db3, processed_count := processed_count b + 1,
                        events := events b @ [Upserted]\<rparr>))"

text \<open>
  The loop: a document that is not a dictionary raises \<^verbatim>\<open>AttributeError\<close> in the loop's
  own handler (\<^verbatim>\<open>doc.get\<close> in the log line), which leaves the function without a commit.
\<close>

fun process_all :: "libs \<Rightarrow> json list \<Rightarrow> batch \<Rightarrow> error + batch" where
  "process_all libs [] b = Inr b"
| "process_all libs (doc # rest) b =
     (case doc of
        JObj kvs \<Rightarrow> process_all libs rest (process_doc libs kvs b)
      | _ \<Rightarrow> Inl AttributeError)"

text \<open>
  \<^verbatim>\<open>process_documents\<close> on an open connection: \<open>Inr\<close> holds the committed store, the two
  counts of the final log line and what was logged per document; \<open>Inl\<close> is an exception
  that leaves the store as it was.
\<close>

definition process_documents :: "libs \<Rightarrow> database \<Rightarrow> json list \<Rightarrow> error + batch" where
  "process_documents libs db docs =
     (if docs = [] then Inr \<lparr>store = db, processed_count = 0, skipped_count = 0, events = []\<rparr>
      else process_all libs docs \<lparr>store = db, processed_count = 0, skipped_count = 0, events = []\<rparr>)"

section \<open>Notions used to state the properties of the persistence layer\<close>

text \<open>Stub stores and documents.\<close>

definition empty_database :: database where
  "empty_database = \<lparr>documents = [], agency_rows = [], next_agency_id = 1, clock = 0\<rparr>"

text \<open>
  Stub libraries: the digest is the serialisation itself, and two keys are equal when
  their texts (for a number, its decimal text) differ at most in the case of ASCII
  letters.
\<close>

definition as_text :: "sqlval \<Rightarrow> string option" where
  "as_text v = (case v of SStr s \<Rightarrow> Some s | SInt i \<Rightarrow> Some (str_int i) | _ \<Rightarrow> None)"

definition stub_sql_eq :: "sqlval \<Rightarrow> sqlval \<Rightarrow> bool" where
  "stub_sql_eq a b =
     (case (as_text a, as_text b) of
        (Some x, Some y) \<Rightarrow> map ascii_lower (lit x) = map ascii_lower (lit y)
      | _ \<Rightarrow> False)"

definition stub_libs :: libs where
  "stub_libs = \<lparr>lib_sha256 = id, lib_repr = dumps False, lib_strptime_ok = (\<lambda>s. length s = 10),
      lib_sql_eq = stub_sql_eq\<rparr>"

definition agency_doc :: json where
  "agency_doc =
     JObj [(''document_number'', JStr ''2024-00001''), (''title'', JStr ''Pesticide tolerances''),
           (''agencies'', JList [JObj [(''name'', JStr ''EPA'')], JObj [(''name'', JStr ''FDA'')]])]"

definition pesticide_fields :: "(string \<times> json) list" where
  "pesticide_fields =
     [(''document_number'', JStr ''2024-00002''), (''title'', JStr ''Pesticide registration review'')]"

definition pesticide_doc :: json where
  "pesticide_doc = JObj pesticide_fields"

definition untitled_doc :: json where
  "untitled_doc = JObj [(''title'', JStr ''No number'')]"

text \<open>A store that holds \<open>pesticide_doc\<close> with the digest of the stub libraries.\<close>

definition stored_pesticide :: database where
  "stored_pesticide =
     \<lparr>documents = [[(''id'', SStr ''2024-00002''), (''title'', SStr ''Pesticide registration review''),
                     (''content_hash'', SStr (compute_content_hash id pesticide_doc))]],
      agency_rows = [], next_agency_id = 1, clock = 0\<rparr>"

text \<open>
  The store holds the digest of the document under the document's id: what the loop
  finds with \<^verbatim>\<open>SELECT content_hash FROM documents WHERE id = %s\<close> and
  \<^verbatim>\<open>fetchone\<close>.
\<close>

definition digest_match :: "libs \<Rightarrow> database \<Rightarrow> json \<Rightarrow> bool" where
  "digest_match libs db doc =
     (case doc of
        JObj kvs \<Rightarrow>
          (let doc_num = py_or (dict_get kvs ''document_number'') (dict_get kvs ''id'') in
           truthy doc_num \<and>
           (case execute libs SelectContentHash [doc_num] db of
              Inl e \<Rightarrow> False
            | Inr (db', rows) \<Rightarrow>
                (case rows of
                   [] \<Rightarrow> False
                 | h # hs \<Rightarrow> h = SStr (compute_content_hash (lib_sha256 libs) doc))))
      | _ \<Rightarrow> False)"

chapter \<open>Verified properties\<close>

section \<open>Digest determinism\<close>

lemma distinct_fst_filter_key:
  "distinct (map fst xs) \<Longrightarrow> k \<in> set xs \<Longrightarrow> filter (\<lambda>x. fst k = fst x) xs = [k]"
proof (induction xs)
  case Nil
  then show ?case by simp
next
  case (Cons x xs)
  show ?case
  proof (cases "k = x")
    case True
    have "filter (\<lambda>y. fst x = fst y) xs = []"
      using Cons.prems(1) by (auto simp: filter_empty_conv image_iff)
    with True show ?thesis by simp
  next
    case False
    with Cons.prems have kin: "k \<in> set xs" by simp
    with Cons.prems(1) have "fst k \<noteq> fst x" by (auto simp: image_iff)
    with Cons kin show ?thesis by simp
  qed
qed

lemma sort_key_fst_unique:
  assumes dx: "distinct (map fst xs)" and dy: "distinct (map fst ys)"
    and eq: "set xs = set ys"
  shows "sort_key fst xs = sort_key fst ys"
proof (rule properties_for_sort_key)
  have "distinct xs" "distinct ys"
    using dx dy by (auto simp: distinct_map)
  then have m: "mset xs = mset ys"
    using eq by (simp add: set_eq_iff_mset_eq_distinct)
  show "mset (sort_key fst ys) = mset xs"
    using m by simp
  show "sorted (map fst (sort_key fst ys))"
    by simp
  fix k
  assume "k \<in> set (sort_key fst ys)"
  then have ky: "k \<in> set ys" by simp
  then have kx: "k \<in> set xs" using eq by simp
  have "filter (\<lambda>x. fst k = fst x) (sort_key fst ys) = [k]"
    using dy ky by (intro distinct_fst_filter_key) (simp_all add: distinct_map)
  moreover have "filter (\<lambda>x. fst k = fst x) xs = [k]"
    using dx kx by (rule distinct_fst_filter_key)
  ultimately show "filter (\<lambda>x. fst k = fst x) (sort_key fst ys) = filter (\<lambda>x. fst k = fst x) xs"
    by simp
qed

lemma insort_key_map_fst:
  assumes "\<And>x. fst (g x) = fst x"
  shows "insort_key fst (g x) (map g ys) = map g (insort_key fst x ys)"
  by (induction ys) (simp_all add: assms)

lemma sort_key_map_fst:
  assumes "\<And>x. fst (g x) = fst x"
  shows "sort_key fst (map g xs) = map g (sort_key fst xs)"
  by (induction xs) (simp_all add: insort_key_map_fst[OF assms])

lemma dumps_same_content: "same_content a b \<Longrightarrow> dumps True a = dumps True b"
proof (induction rule: same_content.induct)
  case (same_value j)
  show ?case by simp
next
  case (same_list xs ys)
  then have "map (dumps True) xs = map (dumps True) ys"
    by (induction rule: list_all2_induct) auto
  then show ?case by simp
next
  case (same_dict xs ys)
  let ?g = "\<lambda>p. (fst p, dumps True (snd p))"
  have dx: "distinct (map fst (map ?g xs))" and dy: "distinct (map fst (map ?g ys))"
    using same_dict(1,2) by (simp_all add: comp_def)
  have sub: "set (map ?g as) \<subseteq> set (map ?g bs)"
    if d: "distinct (map fst as)" "distinct (map fst bs)" and keys: "fst ` set as = fst ` set bs"
      and eq: "\<And>k v w. map_of as k = Some v \<Longrightarrow> map_of bs k = Some w \<Longrightarrow> dumps True v = dumps True w"
    for as bs :: "(string \<times> json) list"
  proof
    fix p assume "p \<in> set (map ?g as)"
    then obtain k v where kv: "(k, v) \<in> set as" and p: "p = (k, dumps True v)" by auto
    then have "k \<in> fst ` set bs" using keys by force
    then obtain w where kw: "(k, w) \<in> set bs" by auto
    have "map_of as k = Some v" "map_of bs k = Some w"
      using kv kw d by simp_all
    then have "dumps True v = dumps True w" by (rule eq)
    then show "p \<in> set (map ?g bs)" using kw p by force
  qed
  have "set (map ?g xs) = set (map ?g ys)"
  proof
    show "set (map ?g xs) \<subseteq> set (map ?g ys)"
      by (rule sub) (use same_dict in auto)
    show "set (map ?g ys) \<subseteq> set (map ?g xs)"
      by (rule sub) (use same_dict in \<open>auto dest: sym\<close>)
  qed
  then have "sort_key fst (map ?g xs) = sort_key fst (map ?g ys)"
    using dx dy by (intro sort_key_fst_unique)
  then have m: "map ?g (sort_key fst xs) = map ?g (sort_key fst ys)"
    by (simp add: sort_key_map_fst)
  let ?f = "\<lambda>(k, v). encode_basestring k @ '': '' @ dumps True v"
  let ?h = "\<lambda>(k, s). encode_basestring k @ '': '' @ s"
  have fe: "map ?f zs = map ?h (map ?g zs)" for zs :: "(string \<times> json) list"
    by (simp add: case_prod_beta)
  have "map ?f (sort_key fst xs) = map ?h (map ?g (sort_key fst xs))"
    by (rule fe)
  also have "\<dots> = map ?h (map ?g (sort_key fst ys))"
    by (simp only: m)
  also have "\<dots> = map ?f (sort_key fst ys)"
    by (rule fe[symmetric])
  finally have "map ?f (sort_key fst xs) = map ?f (sort_key fst ys)" .
  then show ?case
    by (simp only: dumps.simps if_True)
qed

lemma same_content_fields:
  assumes "distinct (map fst xs)" "distinct (map fst ys)" "map_of xs = map_of ys"
  shows "same_content (JObj xs) (JObj ys)"
proof (rule same_dict)
  show "fst ` set xs = fst ` set ys"
    using assms(3) by (metis dom_map_of_conv_image_fst)
  show "\<forall>k v w. map_of xs k = Some v \<longrightarrow> map_of ys k = Some w \<longrightarrow> same_content v w"
    using assms(3) by (auto intro: same_value)
qed (use assms in auto)

text \<open>
  C2. The digest is a function of the content of a record only: two records with the same
  keys and the same values have the same digest whatever the insertion order of their
  fields, also of the fields of the dictionaries nested in them. In particular two
  dictionaries with distinct keys and the same value under every key have the same digest.
\<close>

theorem content_hash_order_independent:
  "(same_content a b \<longrightarrow> compute_content_hash sha256 a = compute_content_hash sha256 b)
   \<and> (distinct (map fst xs) \<and> distinct (map fst ys) \<and> map_of xs = map_of ys \<longrightarrow>
        compute_content_hash sha256 (JObj xs) = compute_content_hash sha256 (JObj ys))"
proof (intro conjI impI)
  assume "same_content a b"
  then have "dumps True a = dumps True b"
    by (rule dumps_same_content)
  then show "compute_content_hash sha256 a = compute_content_hash sha256 b"
    unfolding compute_content_hash_def by (rule arg_cong)
next
  assume "distinct (map fst xs) \<and> distinct (map fst ys) \<and> map_of xs = map_of ys"
  then have "same_content (JObj xs) (JObj ys)"
    using same_content_fields by blast
  then have "dumps True (JObj xs) = dumps True (JObj ys)"
    by (rule dumps_same_content)
  then show "compute_content_hash sha256 (JObj xs) = compute_content_hash sha256 (JObj ys)"
    unfolding compute_content_hash_def by (rule arg_cong)
qed

text \<open>
  An instance of C2: a document and its reordering, which differ as values and in their
  unsorted serialisation, have the same digest.
\<close>

theorem content_hash_order_independent_witness:
  "same_content epa_doc epa_doc_reordered
   \<and> epa_doc \<noteq> epa_doc_reordered
   \<and> dumps False epa_doc \<noteq> dumps False epa_doc_reordered
   \<and> compute_content_hash id epa_doc = compute_content_hash id epa_doc_reordered"
proof -
  have inner: "same_content (JObj [(''name'', JStr ''EPA''), (''id'', JInt 145)])
                            (JObj [(''id'', JInt 145), (''name'', JStr ''EPA'')])"
    by (rule same_content_fields) (auto simp: fun_eq_iff)
  have lists: "same_content (JList [JObj [(''name'', JStr ''EPA''), (''id'', JInt 145)]])
                            (JList [JObj [(''id'', JInt 145), (''name'', JStr ''EPA'')]])"
    by (rule same_list) (simp add: inner)
  have sc: "same_content epa_doc epa_doc_reordered"
    unfolding epa_doc_def epa_doc_reordered_def
  proof (rule same_dict)
    show "\<forall>k v w.
       map_of [(''title'', JStr ''Rule''),
               (''agencies'', JList [JObj [(''name'', JStr ''EPA''), (''id'', JInt 145)]])] k = Some v \<longrightarrow>
       map_of [(''agencies'', JList [JObj [(''id'', JInt 145), (''name'', JStr ''EPA'')]]),
               (''title'', JStr ''Rule'')] k = Some w \<longrightarrow>
       same_content v w"
      using lists by (auto split: if_splits intro: same_value)
  qed auto
  have ne: "epa_doc \<noteq> epa_doc_reordered"
    by (simp add: epa_doc_def epa_doc_reordered_def)
  have nd: "dumps False epa_doc \<noteq> dumps False epa_doc_reordered"
    by code_simp
  from content_hash_order_independent[of epa_doc epa_doc_reordered id] sc
  have "compute_content_hash id epa_doc = compute_content_hash id epa_doc_reordered"
    by blast
  with sc ne nd show ?thesis by blast
qed

section \<open>Pagination\<close>

lemma results_key: "map_of kvs ''results'' = Some v \<Longrightarrow> ''results'' \<in> fst ` set kvs"
  by (metis domI dom_map_of_conv_image_fst)

lemma handle_body_full:
  assumes "map_of kvs ''results'' = Some (JList items)" "items \<noteq> []" "per_page \<le> int (length items)"
  shows "handle_body per_page (JObj kvs) s =
         Continue (s\<lparr>all_shallow := all_shallow s @ items, page := page s + 1, retries := 0\<rparr>)"
  using assms results_key[OF assms(1)]
  by (simp add: handle_body_def dict_get_default_def Let_def)

lemma handle_body_short:
  assumes "map_of kvs ''results'' = Some (JList items)" "int (length items) < per_page"
  shows "handle_body per_page (JObj kvs) s =
         Break (if items = [] then s else s\<lparr>all_shallow := all_shallow s @ items\<rparr>)"
  using assms results_key[OF assms(1)]
  by (simp add: handle_body_def dict_get_default_def Let_def)

lemma handle_body_invalid: "\<not> is_listing data \<Longrightarrow> handle_body per_page data s = Break s"
  by (cases data) (auto simp: handle_body_def is_listing_def)

lemma cap_reached_mono: "cap_reached m q \<Longrightarrow> q \<le> q' \<Longrightarrow> cap_reached m q'"
  by (auto simp: cap_reached_def split: option.splits)

lemma paginate_cap: "cap_reached max_pages (page s) \<Longrightarrow> paginate per_page max_pages max_retries script s = Some s"
  by (cases script) auto

lemma paginate_full_pages:
  assumes "list_all (full_page per_page) fulls"
    and "\<forall>q. page s \<le> q \<and> q < page s + int (length fulls) \<longrightarrow> \<not> cap_reached max_pages q"
    and "retries s = 0"
  shows "paginate per_page max_pages max_retries (map (\<lambda>p. Body (JObj (fst p))) fulls @ rest) s =
         paginate per_page max_pages max_retries rest
           (s\<lparr>page := page s + int (length fulls),
              all_shallow := all_shallow s @ concat (map snd fulls),
              trace := trace s @ map Request [page s ..  page s + int (length fulls) - 1]\<rparr>)"
  using assms
proof (induction fulls arbitrary: s)
  case Nil
  then show ?case by simp
next
  case (Cons p fulls)
  obtain kvs items where p: "p = (kvs, items)" by (cases p)
  from Cons.prems(1) p have fp: "map_of kvs ''results'' = Some (JList items)" "items \<noteq> []" "per_page \<le> int (length items)"
    by (auto simp: full_page_def)
  have nocap: "\<not> cap_reached max_pages (page s)" using Cons.prems(2) by simp
  let ?s1 = "s\<lparr>trace := trace s @ [Request (page s)]\<rparr>"
  let ?s2 = "?s1\<lparr>all_shallow := all_shallow ?s1 @ items, page := page ?s1 + 1, retries := 0\<rparr>"
  have step: "paginate per_page max_pages max_retries (map (\<lambda>p. Body (JObj (fst p))) (p # fulls) @ rest) s
      = paginate per_page max_pages max_retries (map (\<lambda>p. Body (JObj (fst p))) fulls @ rest) ?s2"
    using nocap p by (simp add: handle_response_def handle_body_full[OF fp])
  have ih: "paginate per_page max_pages max_retries (map (\<lambda>p. Body (JObj (fst p))) fulls @ rest) ?s2 =
      paginate per_page max_pages max_retries rest
           (?s2\<lparr>page := page ?s2 + int (length fulls),
              all_shallow := all_shallow ?s2 @ concat (map snd fulls),
              trace := trace ?s2 @ map Request [page ?s2 ..  page ?s2 + int (length fulls) - 1]\<rparr>)"
  proof (rule Cons.IH)
    show "list_all (full_page per_page) fulls" using Cons.prems(1) by simp
    show "\<forall>q. page ?s2 \<le> q \<and> q < page ?s2 + int (length fulls) \<longrightarrow> \<not> cap_reached max_pages q"
      using Cons.prems(2) by auto
    show "retries ?s2 = 0" by simp
  qed
  have upto: "[page s .. page s + int (length fulls)] = page s # [page s + 1 .. page s + int (length fulls)]"
    by (simp add: upto_rec1)
  have fin: "?s2\<lparr>page := page ?s2 + int (length fulls),
              all_shallow := all_shallow ?s2 @ concat (map snd fulls),
              trace := trace ?s2 @ map Request [page ?s2 ..  page ?s2 + int (length fulls) - 1]\<rparr>
       = s\<lparr>page := page s + int (length (p # fulls)),
              all_shallow := all_shallow s @ concat (map snd (p # fulls)),
              trace := trace s @ map Request [page s ..  page s + int (length (p # fulls)) - 1]\<rparr>"
    using Cons.prems(3) p by (cases s) (simp add: upto_rec1 add.assoc)
  show ?case
    unfolding step ih fin ..
qed

lemma paginate_from_start:
  assumes "list_all (full_page per_page) fulls"
    and "\<not> cap_reached max_pages (int (length fulls))"
  shows "paginate per_page max_pages max_retries (map (\<lambda>p. Body (JObj (fst p))) fulls @ rest) initial_state =
         paginate per_page max_pages max_retries rest
           \<lparr>page = 1 + int (length fulls), retries = 0,
            all_shallow = concat (map snd fulls),
            trace = map Request [1 .. int (length fulls)]\<rparr>"
proof -
  have "\<forall>q. page initial_state \<le> q \<and> q < page initial_state + int (length fulls) \<longrightarrow> \<not> cap_reached max_pages q"
    using assms(2) cap_reached_mono by (fastforce simp: initial_state_def)
  from paginate_full_pages[OF assms(1) this, of max_retries rest]
  show ?thesis by (simp add: initial_state_def)
qed



lemma paginate_cap_zero:
  "paginate per_page (Some 0) max_retries script s = paginate per_page None max_retries script s"
  by (induction script arbitrary: s) (auto simp: cap_reached_def split: step.splits)

lemma handle_response_trace:
  "handle_response per_page max_retries r s = Break s' \<or> handle_response per_page max_retries r s = Continue s'
   \<Longrightarrow> Request p \<in> set (trace s') \<Longrightarrow> Request p \<in> set (trace s)"
  by (cases r)
     (auto simp: handle_response_def handle_body_def handle_transient_def Let_def
           split: json.splits if_splits option.splits)

lemma paginate_within_cap:
  assumes "m \<noteq> 0"
    and "paginate per_page (Some m) max_retries script s = Some s'"
    and "\<forall>p. Request p \<in> set (trace s) \<longrightarrow> p \<le> m"
  shows "\<forall>p. Request p \<in> set (trace s') \<longrightarrow> p \<le> m"
  using assms(2,3)
proof (induction script arbitrary: s)
  case Nil
  then show ?case by (auto split: if_splits)
next
  case (Cons r script)
  show ?case
  proof (cases "cap_reached (Some m) (page s)")
    case True
    with Cons.prems show ?thesis by simp
  next
    case False
    then have le: "page s \<le> m" using assms(1) by (simp add: cap_reached_def)
    let ?s1 = "s\<lparr>trace := trace s @ [Request (page s)]\<rparr>"
    have inv1: "\<forall>p. Request p \<in> set (trace ?s1) \<longrightarrow> p \<le> m"
      using Cons.prems(2) le by auto
    show ?thesis
    proof (cases "handle_response per_page max_retries r ?s1")
      case (Break s2)
      with False Cons.prems(1) have "s' = s2" by simp
      with handle_response_trace[of per_page max_retries r ?s1 s2] Break inv1
      show ?thesis by blast
    next
      case (Continue s2)
      with False Cons.prems(1) have p: "paginate per_page (Some m) max_retries script s2 = Some s'"
        by simp
      have "\<forall>p. Request p \<in> set (trace s2) \<longrightarrow> p \<le> m"
        using handle_response_trace[of per_page max_retries r ?s1 s2] Continue inv1 by blast
      from Cons.IH[OF p this] show ?thesis .
    qed
  qed
qed

text \<open>
  C3 (amended). The loop stops requesting pages as soon as a page returns fewer results
  than \<open>per_page\<close>, or a response is not a dictionary with a \<^verbatim>\<open>results\<close> key, or the
  page number exceeds a \<open>max_pages\<close> that is not zero: after any number of full pages,
  the short page (or the invalid response) is the last request whatever answers the
  endpoint would still give (\<open>rest\<close>); with \<open>max_pages\<close> full pages no request beyond
  the cap is made; and whatever the endpoint answers, a loop that ends has requested no
  page beyond a cap that is not zero. A cap of zero is no cap: the loop runs as it does
  without one. For stub pages of sizes 100, 100 and 45 with \<open>per_page = 100\<close> exactly
  the pages 1, 2 and 3 are requested and 245 shallow records are accumulated.
\<close>

theorem pagination_stops:
  assumes "list_all (full_page per_page) fulls"
  shows "(\<not> cap_reached max_pages (1 + int (length fulls)) \<and>
          map_of kvs ''results'' = Some (JList items) \<and> int (length items) < per_page \<longrightarrow>
            paginate per_page max_pages max_retries
              (map (\<lambda>p. Body (JObj (fst p))) fulls @ Body (JObj kvs) # rest) initial_state =
            Some \<lparr>page = 1 + int (length fulls), retries = 0,
                  all_shallow = concat (map snd fulls) @ items,
                  trace = map Request [1 .. 1 + int (length fulls)]\<rparr>)
       \<and> (\<not> cap_reached max_pages (1 + int (length fulls)) \<and> \<not> is_listing data \<longrightarrow>
            paginate per_page max_pages max_retries
              (map (\<lambda>p. Body (JObj (fst p))) fulls @ Body data # rest) initial_state =
            Some \<lparr>page = 1 + int (length fulls), retries = 0,
                  all_shallow = concat (map snd fulls),
                  trace = map Request [1 .. 1 + int (length fulls)]\<rparr>)
       \<and> (max_pages = Some (int (length fulls)) \<and> fulls \<noteq> [] \<longrightarrow>
            paginate per_page max_pages max_retries
              (map (\<lambda>p. Body (JObj (fst p))) fulls @ rest) initial_state =
            Some \<lparr>page = 1 + int (length fulls), retries = 0,
                  all_shallow = concat (map snd fulls),
                  trace = map Request [1 .. int (length fulls)]\<rparr>)
       \<and> (m \<noteq> 0 \<and> paginate per_page (Some m) max_retries script initial_state = Some s \<longrightarrow>
            (\<forall>p. Request p \<in> set (trace s) \<longrightarrow> p \<le> m))
       \<and> paginate per_page (Some 0) max_retries script initial_state =
           paginate per_page None max_retries script initial_state"
proof (intro conjI impI allI)
  assume a: "\<not> cap_reached max_pages (1 + int (length fulls)) \<and>
          map_of kvs ''results'' = Some (JList items) \<and> int (length items) < per_page"
  then have nc: "\<not> cap_reached max_pages (int (length fulls))"
    using cap_reached_mono[of max_pages "int (length fulls)" "1 + int (length fulls)"] by auto
  have up: "[1 .. 1 + int (length fulls)] = [1 .. int (length fulls)] @ [1 + int (length fulls)]"
    using upto_rec2[of 1 "1 + int (length fulls)"] by simp
  show "paginate per_page max_pages max_retries
              (map (\<lambda>p. Body (JObj (fst p))) fulls @ Body (JObj kvs) # rest) initial_state =
            Some \<lparr>page = 1 + int (length fulls), retries = 0,
                  all_shallow = concat (map snd fulls) @ items,
                  trace = map Request [1 .. 1 + int (length fulls)]\<rparr>"
    unfolding paginate_from_start[OF assms nc] using a
    by (simp add: handle_response_def handle_body_short up)
next
  assume a: "\<not> cap_reached max_pages (1 + int (length fulls)) \<and> \<not> is_listing data"
  then have nc: "\<not> cap_reached max_pages (int (length fulls))"
    using cap_reached_mono[of max_pages "int (length fulls)" "1 + int (length fulls)"] by auto
  have up: "[1 .. 1 + int (length fulls)] = [1 .. int (length fulls)] @ [1 + int (length fulls)]"
    using upto_rec2[of 1 "1 + int (length fulls)"] by simp
  show "paginate per_page max_pages max_retries
              (map (\<lambda>p. Body (JObj (fst p))) fulls @ Body data # rest) initial_state =
            Some \<lparr>page = 1 + int (length fulls), retries = 0,
                  all_shallow = concat (map snd fulls),
                  trace = map Request [1 .. 1 + int (length fulls)]\<rparr>"
    unfolding paginate_from_start[OF assms nc] using a
    by (simp add: handle_response_def handle_body_invalid up)
next
  assume a: "max_pages = Some (int (length fulls)) \<and> fulls \<noteq> []"
  then have nc: "\<not> cap_reached max_pages (int (length fulls))"
    by (simp add: cap_reached_def)
  have c: "cap_reached max_pages (1 + int (length fulls))"
    using a by (simp add: cap_reached_def)
  show "paginate per_page max_pages max_retries
              (map (\<lambda>p. Body (JObj (fst p))) fulls @ rest) initial_state =
            Some \<lparr>page = 1 + int (length fulls), retries = 0,
                  all_shallow = concat (map snd fulls),
                  trace = map Request [1 .. int (length fulls)]\<rparr>"
    unfolding paginate_from_start[OF assms nc]
    by (rule paginate_cap) (simp add: c)
next
  fix p
  assume a: "m \<noteq> 0 \<and> paginate per_page (Some m) max_retries script initial_state = Some s"
    and p: "Request p \<in> set (trace s)"
  have "\<forall>p. Request p \<in> set (trace initial_state) \<longrightarrow> p \<le> m"
    by (simp add: initial_state_def)
  from paginate_within_cap[OF conjunct1[OF a] conjunct2[OF a] this] p
  show "p \<le> m" by blast
next
  show "paginate per_page (Some 0) max_retries script initial_state =
           paginate per_page None max_retries script initial_state"
    by (rule paginate_cap_zero)
qed

text \<open>
  An instance of C3: stub pages of sizes 100, 100 and 45 with \<open>per_page = 100\<close>.
\<close>

theorem pagination_stops_witness:
  "paginate 100 None 3
     [Body (JObj (stub_page 100)), Body (JObj (stub_page 100)), Body (JObj (stub_page 45))]
     initial_state =
   Some \<lparr>page = 3, retries = 0,
         all_shallow = replicate 100 stub_doc @ replicate 100 stub_doc @ replicate 45 stub_doc,
         trace = [Request 1, Request 2, Request 3]\<rparr>
   \<and> length (replicate 100 stub_doc @ replicate 100 stub_doc @ replicate 45 stub_doc) = 245"
proof -
  let ?F = "[(stub_page 100, replicate 100 stub_doc), (stub_page 100, replicate 100 stub_doc)]"
  have fp: "list_all (full_page 100) ?F"
    by (simp add: full_page_def stub_page_def)
  have c: "\<not> cap_reached None (1 + int (length ?F)) \<and>
      map_of (stub_page 45) ''results'' = Some (JList (replicate 45 stub_doc)) \<and>
      int (length (replicate 45 stub_doc)) < 100"
    by (simp add: cap_reached_def stub_page_def)
  have up: "[1 .. 1 + int (length ?F)] = [1, 2, 3]"
    by code_simp
  from pagination_stops[OF fp, where max_pages = None and kvs = "stub_page 45"
      and items = "replicate 45 stub_doc" and max_retries = 3 and rest = "[]"
      and m = 1 and script = "[]" and s = initial_state and data = JNull] c
  have "paginate 100 None 3
          (map (\<lambda>p. Body (JObj (fst p))) ?F @ Body (JObj (stub_page 45)) # []) initial_state =
        Some \<lparr>page = 1 + int (length ?F), retries = 0,
              all_shallow = concat (map snd ?F) @ replicate 45 stub_doc,
              trace = map Request [1 .. 1 + int (length ?F)]\<rparr>"
    by blast
  then show ?thesis
    unfolding up by simp
qed

text \<open>
  C3 as stated fails: with \<open>max_pages = 0\<close> the page number exceeds the cap from the
  first page on, and the loop still requests pages until a short one comes.
\<close>

theorem zero_page_cap_is_no_cap:
  "\<not> cap_reached (Some 0) 1
   \<and> paginate 2 (Some 0) 3
       [Body (JObj (stub_page 2)), Body (JObj (stub_page 2)), Body (JObj (stub_page 1))] initial_state =
     Some \<lparr>page = 3, retries = 0,
           all_shallow = [stub_doc, stub_doc, stub_doc, stub_doc, stub_doc],
           trace = [Request 1, Request 2, Request 3]\<rparr>"
  by code_simp

section \<open>Enrichment\<close>

lemma submit_all_dicts:
  "list_all is_dict shallow \<Longrightarrow> submit_all shallow = Inr (pending shallow)"
  by (induction shallow)
     (auto simp: is_dict_def pending_def resolvable_def doc_number_of_def Let_def split: json.splits)

lemma map_of_dict_set: "map_of (dict_set k v d) = (map_of d)(k \<mapsto> v)"
  by (induction d) (auto simp: fun_eq_iff)

lemma map_of_fold_dict_set:
  "map_of (fold (\<lambda>(k, v). dict_set k v) b a) = map_of a ++ map_of (rev b)"
proof (induction b arbitrary: a)
  case Nil
  then show ?case by simp
next
  case (Cons p b)
  obtain k v where p: "p = (k, v)" by (cases p)
  have "map_of (fold (\<lambda>(k, v). dict_set k v) (p # b) a) = map_of (dict_set k v a) ++ map_of (rev b)"
    using Cons.IH[of "dict_set k v a"] p by simp
  also have "\<dots> = map_of a ++ map_of (rev (p # b))"
    unfolding map_of_dict_set p
    by (auto simp: fun_eq_iff map_add_def split: option.splits)
  finally show ?case .
qed

lemma map_of_rev_distinct: "distinct (map fst xs) \<Longrightarrow> map_of (rev xs) = map_of xs"
  by (metis distinct_rev map_of_inject_set rev_map set_rev)

lemma map_of_dict_merge:
  "distinct (map fst b) \<Longrightarrow> map_of (dict_merge a b) = map_of a ++ map_of b"
  by (simp add: dict_merge_def map_of_fold_dict_set map_of_rev_distinct)

lemma merge_one_detail:
  "detail n = DetailBody (JObj fkvs) \<Longrightarrow> merge_one detail (JObj kvs, n) = JObj (dict_merge kvs fkvs)"
  by (cases fkvs) (simp_all add: merge_one_def fetch_full_document_def dict_merge_def)

lemma merge_one_failed:
  "detail n = DetailFailed \<Longrightarrow> merge_one detail (JObj kvs, n) = JObj kvs"
  by (simp add: merge_one_def fetch_full_document_def dict_merge_def)

text \<open>
  C7 (amended). For every list of shallow records that are dictionaries, and every order
  in which the futures complete, the enrichment returns a list that holds, exactly once
  each, the merged record of every input record with a truthy \<^verbatim>\<open>document_number\<close> or
  \<^verbatim>\<open>id\<close>, the detail being fetched for that document number. The merged record is
  the shallow record overlaid with the detail record (the detail's fields win on
  conflict); when the detail fetch fails the shallow record is kept unmodified.
\<close>

theorem enrich_total_merge:
  assumes "list_all is_dict shallow"
    and "mset (as_completed (pending shallow)) = mset (pending shallow)"
  shows "(\<exists>out. enrich detail as_completed shallow = Inr out
            \<and> mset out = image_mset (\<lambda>d. merge_one detail (d, doc_number_of d))
                                  (mset (filter resolvable shallow)))
       \<and> (detail n = DetailBody (JObj fkvs) \<and> distinct (map fst fkvs) \<longrightarrow>
            merge_one detail (JObj kvs, n) = JObj (dict_merge kvs fkvs)
            \<and> map_of (dict_merge kvs fkvs) = map_of kvs ++ map_of fkvs)
       \<and> (detail n = DetailFailed \<longrightarrow> merge_one detail (JObj kvs, n) = JObj kvs)"
proof -
  have e: "enrich detail as_completed shallow = Inr (map (merge_one detail) (as_completed (pending shallow)))"
    by (simp add: enrich_def submit_all_dicts[OF assms(1)])
  have "mset (map (merge_one detail) (as_completed (pending shallow)))
        = image_mset (merge_one detail) (mset (pending shallow))"
    using assms(2) by (metis mset_map)
  also have "\<dots> = image_mset (\<lambda>d. merge_one detail (d, doc_number_of d)) (mset (filter resolvable shallow))"
    by (simp add: pending_def multiset.map_comp comp_def)
  finally have m: "mset (map (merge_one detail) (as_completed (pending shallow)))
        = image_mset (\<lambda>d. merge_one detail (d, doc_number_of d)) (mset (filter resolvable shallow))" .
  show ?thesis
    using e m merge_one_detail[of detail n fkvs kvs] merge_one_failed[of detail n kvs]
      map_of_dict_merge[of fkvs kvs]
    by simp
qed

text \<open>
  An instance of C7: two shallow records whose futures complete in reverse order; the
  detail of the first is fetched and merged, the detail fetch of the second fails.
\<close>

theorem enrich_total_merge_witness:
  "list_all is_dict [shallow_a, shallow_b]
   \<and> mset (rev (pending [shallow_a, shallow_b])) = mset (pending [shallow_a, shallow_b])
   \<and> stub_detail (JStr ''2024-00001'') =
        DetailBody (JObj [(''title'', JStr ''Full title''), (''abstract'', JStr ''Text'')])
   \<and> distinct (map fst [(''title'', JStr ''Full title''), (''abstract'', JStr ''Text'')])
   \<and> stub_detail (JStr ''2024-00002'') = DetailFailed
   \<and> (\<exists>out. enrich stub_detail rev [shallow_a, shallow_b] = Inr out
          \<and> mset out = image_mset (\<lambda>d. merge_one stub_detail (d, doc_number_of d))
                                (mset (filter resolvable [shallow_a, shallow_b])))
   \<and> enrich stub_detail rev [shallow_a, shallow_b] =
       Inr [shallow_b,
            JObj [(''document_number'', JStr ''2024-00001''), (''title'', JStr ''Full title''),
                  (''abstract'', JStr ''Text'')]]"
proof -
  have h1: "list_all is_dict [shallow_a, shallow_b]"
    by (simp add: is_dict_def shallow_a_def shallow_b_def)
  have h2: "mset (rev (pending [shallow_a, shallow_b])) = mset (pending [shallow_a, shallow_b])"
    by simp
  have ev: "enrich stub_detail rev [shallow_a, shallow_b] =
       Inr [shallow_b,
            JObj [(''document_number'', JStr ''2024-00001''), (''title'', JStr ''Full title''),
                  (''abstract'', JStr ''Text'')]]"
    by (simp add: enrich_def shallow_a_def shallow_b_def py_or_def dict_get_def dict_get_default_def
        merge_one_def fetch_full_document_def stub_detail_def dict_merge_def Let_def)
  show ?thesis
    using h1 h2 ev
      enrich_total_merge[where as_completed = rev and shallow = "[shallow_a, shallow_b]"
        and detail = stub_detail, OF h1 h2]
    by (simp add: stub_detail_def)
qed

text \<open>
  C7 as stated fails: a shallow record with neither \<^verbatim>\<open>document_number\<close> nor
  \<^verbatim>\<open>id\<close> is passed over by the submission loop and is not in the output.
\<close>

theorem enrich_drops_unnumbered:
  "enrich detail_unavailable id [JObj [(''title'', JStr ''Notice'')]] = Inr []"
  by (simp add: enrich_def py_or_def dict_get_def dict_get_default_def)

section \<open>Retries\<close>





section \<open>Intent gate\<close>

lemma strip_constants:
  "py_strip (lit ''search '') = lit ''search''" "py_strip (lit ''find '') = lit ''find''"
  "py_strip (lit ''recent'') = lit ''recent''" "py_strip (lit ''help'') = lit ''help''"
  "py_strip (lit ''get '') = lit ''get''" "py_strip (lit ''show '') = lit ''show''"
  by code_simp+

lemma matched:
  "list_ex (\<lambda>p. lower = py_strip p \<or> startswith lower p) cmd_prefixes \<longleftrightarrow>
     lower = lit ''search'' \<or> startswith lower (lit ''search '') \<or> lower = lit ''find''
     \<or> startswith lower (lit ''find '') \<or> lower = lit ''recent'' \<or> startswith lower (lit ''recent'')
     \<or> lower = lit ''help'' \<or> startswith lower (lit ''help'') \<or> lower = lit ''get''
     \<or> startswith lower (lit ''get '') \<or> lower = lit ''show'' \<or> startswith lower (lit ''show '')"
  by (simp add: cmd_prefixes_def strip_constants)

lemma command_reply_None_iff:
  "command_reply py lower msg = None \<longleftrightarrow>
     \<not> startswith lower (lit ''recent'') \<and> \<not> startswith lower (lit ''find '') \<and>
     \<not> startswith lower (lit ''search '') \<and> lower \<noteq> lit ''help''"
proof (cases "list_ex (\<lambda>p. lower = py_strip p \<or> startswith lower p) cmd_prefixes")
  case True
  then show ?thesis
    by (simp add: command_reply_def Let_def split: sum.splits)
next
  case False
  then have "\<not> startswith lower (lit ''recent'') \<and> \<not> startswith lower (lit ''find '') \<and>
     \<not> startswith lower (lit ''search '') \<and> lower \<noteq> lit ''help''"
    unfolding matched by blast
  with False show ?thesis
    by (simp add: command_reply_def)
qed

lemma py_strip_Nil [simp]: "py_strip [] = []"
  by (simp add: py_strip_def)

lemma py_lower_Nil [simp]: "py_lower py [] = []"
  by (simp add: py_lower_def is_ascii_def)

lemma chat_gate:
  assumes "lower = py_strip (py_lower py (py_strip message))"
    and "tokens = findall_tokens lower"
    and "command_reply py lower (py_strip message) = None"
    and "tokens \<noteq> []"
  shows "chat py meta message =
      (if length tokens \<le> 2 \<and> overlap_ratio py meta tokens \<ge> 0.33 then Inr (Run lower None 25)
       else if length tokens > 2 \<and> overlap_ratio py meta tokens \<ge> 0.18 then Inr (Run lower None 25)
       else Inr (Text refusal_message))"
proof -
  have ne: "py_strip message \<noteq> []"
    using assms(1,2,4) by (auto simp: findall_tokens_def)
  show ?thesis
    using assms ne by (simp add: chat_def Let_def)
qed

lemma chat_no_token:
  assumes "lower = py_strip (py_lower py (py_strip message))"
    and "command_reply py lower (py_strip message) = None"
    and "findall_tokens lower = []"
  shows "chat py meta message = Inr (Text please_provide)"
  using assms by (simp add: chat_def Let_def)

lemma overlap_ratio_nonempty:
  assumes "tokens \<noteq> []"
  shows "overlap_ratio py meta tokens =
      real (card (set tokens \<inter> domain_tokens py meta)) / real (card (set tokens))"
proof -
  have "0 < card (set tokens)"
    using assms by (simp add: card_gt_0_iff)
  then have "1 \<le> card (set tokens)"
    by linarith
  then have m: "max 1 (card (set tokens)) = card (set tokens)"
    by (rule max_absorb2)
  show ?thesis
    unfolding overlap_ratio_def m ..
qed

lemma hello_strip: "py_strip (py_lower py (py_strip (lit ''hello''))) = lit ''hello''"
proof -
  have 1: "py_strip (lit ''hello'') = lit ''hello''" by code_simp
  have 2: "is_ascii (lit ''hello'')" by code_simp
  have 3: "map ascii_lower (lit ''hello'') = lit ''hello''" by code_simp
  show ?thesis by (simp add: 1 2 3 py_lower_def)
qed

lemma hello_tokens: "findall_tokens (lit ''hello'') = [lit ''hello'']"
  by code_simp

lemma hello_no_command: "command_reply py (lit ''hello'') (py_strip (lit ''hello'')) = None"
proof -
  have "\<not> startswith (lit ''hello'') (lit ''recent'') \<and> \<not> startswith (lit ''hello'') (lit ''find '') \<and>
     \<not> startswith (lit ''hello'') (lit ''search '') \<and> lit ''hello'' \<noteq> lit ''help''"
    by code_simp
  then show ?thesis by (simp add: command_reply_None_iff)
qed

lemma search_pesticide:
  "chat py meta (lit ''search pesticide'') = Inr (Run (lit ''pesticide'') None 25)"
proof -
  have 1: "py_strip (lit ''search pesticide'') = lit ''search pesticide''" by code_simp
  have a: "is_ascii (lit ''search pesticide'')" by code_simp
  have 2: "py_strip (map ascii_lower (lit ''search pesticide'')) = lit ''search pesticide''" by code_simp
  have m: "list_ex (\<lambda>p. lit ''search pesticide'' = py_strip p \<or> startswith (lit ''search pesticide'') p)
             cmd_prefixes"
    by code_simp
  have r: "\<not> startswith (lit ''search pesticide'') (lit ''recent'')" by code_simp
  have f: "\<not> startswith (lit ''search pesticide'') (lit ''find '')" by code_simp
  have s: "startswith (lit ''search pesticide'') (lit ''search '')" by code_simp
  have q: "py_strip (drop (length (lit ''search '')) (lit ''search pesticide'')) = lit ''pesticide''"
    by code_simp
  have ne: "lit ''pesticide'' \<noteq> []" "lit ''search pesticide'' \<noteq> []" by (simp_all add: lit_def)
  have 3: "command_reply py (lit ''search pesticide'') (lit ''search pesticide'')
             = Some (Inr (Run (lit ''pesticide'') None 25))"
    unfolding command_reply_def using m r f s ne by (simp add: q Let_def)
  show ?thesis
    unfolding chat_def using ne by (simp add: 1 2 3 a py_lower_def Let_def)
qed

text \<open>
  C6 (amended). For every input that no command handler answers, \<^verbatim>\<open>chat\<close> does one of
  three things. With at least one token it runs the lowercased input as a search query
  if and only if the overlap ratio (distinct input tokens in the domain vocabulary over
  distinct input tokens) is at least \<open>0.33\<close> when the input has at most two tokens and at
  least \<open>0.18\<close> when it has more, and otherwise returns the fixed refusal message. With
  no token it returns the prompt for a query. The input \<^verbatim>\<open>search pesticide\<close> is dispatched
  to the search whatever the vocabulary, and \<^verbatim>\<open>hello\<close> with no overlap gets the refusal
  message.
\<close>

theorem intent_gate:
  assumes "lower = py_strip (py_lower py (py_strip message))"
    and "tokens = findall_tokens lower"
    and "command_reply py lower (py_strip message) = None"
  shows "(tokens \<noteq> [] \<longrightarrow>
            (chat py meta message = Inr (Run lower None 25) \<longleftrightarrow>
               real (card (set tokens \<inter> domain_tokens py meta)) / real (card (set tokens))
                 \<ge> (if length tokens \<le> 2 then 0.33 else 0.18))
          \<and> (chat py meta message = Inr (Text refusal_message) \<longleftrightarrow>
               real (card (set tokens \<inter> domain_tokens py meta)) / real (card (set tokens))
                 < (if length tokens \<le> 2 then 0.33 else 0.18)))
       \<and> (tokens = [] \<longrightarrow> chat py meta message = Inr (Text please_provide))
       \<and> chat py meta (lit ''search pesticide'') = Inr (Run (lit ''pesticide'') None 25)
       \<and> (lit ''hello'' \<notin> domain_tokens py meta \<longrightarrow>
            chat py meta (lit ''hello'') = Inr (Text refusal_message))"
proof -
  have 1: "tokens \<noteq> [] \<longrightarrow>
            (chat py meta message = Inr (Run lower None 25) \<longleftrightarrow>
               real (card (set tokens \<inter> domain_tokens py meta)) / real (card (set tokens))
                 \<ge> (if length tokens \<le> 2 then 0.33 else 0.18))
          \<and> (chat py meta message = Inr (Text refusal_message) \<longleftrightarrow>
               real (card (set tokens \<inter> domain_tokens py meta)) / real (card (set tokens))
                 < (if length tokens \<le> 2 then 0.33 else 0.18))"
  proof
    assume ne: "tokens \<noteq> []"
    note gate = chat_gate[OF assms ne]
    note r = overlap_ratio_nonempty[OF ne, of py meta]
    show "(chat py meta message = Inr (Run lower None 25) \<longleftrightarrow>
               real (card (set tokens \<inter> domain_tokens py meta)) / real (card (set tokens))
                 \<ge> (if length tokens \<le> 2 then 0.33 else 0.18))
          \<and> (chat py meta message = Inr (Text refusal_message) \<longleftrightarrow>
               real (card (set tokens \<inter> domain_tokens py meta)) / real (card (set tokens))
                 < (if length tokens \<le> 2 then 0.33 else 0.18))"
      unfolding gate r by auto
  qed
  have 2: "tokens = [] \<longrightarrow> chat py meta message = Inr (Text please_provide)"
    using chat_no_token[OF assms(1,3)] assms(2) by simp
  have 4: "lit ''hello'' \<notin> domain_tokens py meta \<longrightarrow>
             chat py meta (lit ''hello'') = Inr (Text refusal_message)"
  proof
    assume h: "lit ''hello'' \<notin> domain_tokens py meta"
    have "chat py meta (lit ''hello'') =
      (if length [lit ''hello''] \<le> 2 \<and> overlap_ratio py meta [lit ''hello''] \<ge> 0.33
       then Inr (Run (lit ''hello'') None 25)
       else if length [lit ''hello''] > 2 \<and> overlap_ratio py meta [lit ''hello''] \<ge> 0.18
       then Inr (Run (lit ''hello'') None 25)
       else Inr (Text refusal_message))"
      by (rule chat_gate) (simp_all add: hello_strip hello_tokens hello_no_command)
    moreover have "overlap_ratio py meta [lit ''hello''] = 0"
      using h by (simp add: overlap_ratio_def)
    ultimately show "chat py meta (lit ''hello'') = Inr (Text refusal_message)" by simp
  qed
  from 1 2 search_pesticide 4 show ?thesis by blast
qed

text \<open>
  An instance of C6: two tokens, one of them in the vocabulary, ratio \<open>1 / 2\<close>.
\<close>

theorem intent_gate_witness:
  "py_strip (py_lower stub_interpreter (py_strip (lit ''  Pesticide RULES  ''))) = lit ''pesticide rules''
   \<and> findall_tokens (lit ''pesticide rules'') = [lit ''pesticide'', lit ''rules'']
   \<and> command_reply stub_interpreter (lit ''pesticide rules'') (py_strip (lit ''  Pesticide RULES  '')) = None
   \<and> real (card (set [lit ''pesticide'', lit ''rules''] \<inter> domain_tokens stub_interpreter stub_metadata))
         / real (card (set [lit ''pesticide'', lit ''rules''])) = 1 / 2
   \<and> chat stub_interpreter stub_metadata (lit ''  Pesticide RULES  '')
        = Inr (Run (lit ''pesticide rules'') None 25)
   \<and> chat stub_interpreter stub_metadata (lit ''search pesticide'') = Inr (Run (lit ''pesticide'') None 25)"
proof -
  have e1: "py_strip (py_lower stub_interpreter (py_strip (lit ''  Pesticide RULES  ''))) = lit ''pesticide rules''"
    by code_simp
  have e2: "findall_tokens (lit ''pesticide rules'') = [lit ''pesticide'', lit ''rules'']"
    by code_simp
  have h3: "command_reply stub_interpreter (lit ''pesticide rules'') (py_strip (lit ''  Pesticide RULES  '')) = None"
    by code_simp
  have h4: "[lit ''pesticide'', lit ''rules''] \<noteq> []"
    by simp
  have c1: "card (set [lit ''pesticide'', lit ''rules''] \<inter> domain_tokens stub_interpreter stub_metadata) = 1"
    by code_simp
  have c2: "card (set [lit ''pesticide'', lit ''rules'']) = 2"
    by code_simp
  have r: "real (card (set [lit ''pesticide'', lit ''rules''] \<inter> domain_tokens stub_interpreter stub_metadata))
         / real (card (set [lit ''pesticide'', lit ''rules''])) = 1 / 2"
    unfolding c1 c2 by simp
  note g = intent_gate[OF e1[symmetric] e2[symmetric] h3, of stub_metadata]
  have ch1: "chat stub_interpreter stub_metadata (lit ''  Pesticide RULES  '')
        = Inr (Run (lit ''pesticide rules'') None 25)"
    using g h4 unfolding r by simp
  have ch2: "chat stub_interpreter stub_metadata (lit ''search pesticide'') = Inr (Run (lit ''pesticide'') None 25)"
    using g by blast
  from e1 e2 h3 r ch1 ch2 show ?thesis by blast
qed

text \<open>
  C6 as stated fails: an input with no token (here \<^verbatim>\<open>???\<close>) is not a command and is not
  accepted, but it is answered with the prompt for a query, not with the refusal message.
\<close>

theorem tokenless_input_is_prompted:
  "command_reply stub_interpreter (py_strip (py_lower stub_interpreter (py_strip (lit ''???''))))
      (py_strip (lit ''???'')) = None
   \<and> findall_tokens (py_strip (py_lower stub_interpreter (py_strip (lit ''???'')))) = []
   \<and> chat stub_interpreter stub_metadata (lit ''???'') = Inr (Text please_provide)
   \<and> please_provide \<noteq> refusal_message"
  by code_simp

text \<open>
  Inputs outside ASCII, under an interpreter that knows the facts of Unicode they need:
  a no-break space is stripped; the Kelvin sign is lowercased to \<^verbatim>\<open>k\<close>, in the input
  and in the vocabulary; an Arabic-Indic digit is a digit and is read by \<^verbatim>\<open>int\<close>; the
  superscript two is a digit that \<^verbatim>\<open>int\<close> refuses.
\<close>

lemma inputs_outside_ascii:
  "py_strip [0xA0, 0x2003] = []"
  "chat sample_interpreter park_metadata (lit ''Par'' @ [0x212A]) = Inr (Run (lit ''park'') None 25)"
  "domain_tokens sample_interpreter kelvin_metadata = {lit ''park'', lit ''service''}"
  "chat sample_interpreter kelvin_metadata (lit ''par par par'') = Inr (Text refusal_message)"
  "chat sample_interpreter park_metadata (lit ''recent '' @ [0x663]) = Inr (Run [] None 3)"
  "chat sample_interpreter park_metadata (lit ''recent'' @ [0xA0] @ lit ''5'') = Inr (Run [] None 5)"
  "chat sample_interpreter park_metadata (lit ''recent '' @ [0xB2]) = Inl ValueError"
  by code_simp+

lemma repeat_word_Suc_Suc: "repeat_word w (Suc (Suc n)) = w @ 32 # repeat_word w (Suc n)"
  by (simp add: repeat_word_def join_def)

lemma repeat_word_one: "repeat_word w (Suc 0) = w"
  by (simp add: repeat_word_def join_def)

lemma runs_word:
  assumes "w \<noteq> []" "list_all P w"
  shows "runs P w = [w]"
proof -
  obtain x xs where w: "w = x # xs" using assms(1) by (cases w) auto
  then have px: "P x" and pxs: "\<forall>y\<in>set xs. P y" using assms(2) by (auto simp: list_all_iff)
  have tw: "takeWhile P xs = xs" and dw: "dropWhile P xs = []"
    using pxs by auto
  have "runs P (x # xs) = (x # takeWhile P xs) # runs P (dropWhile P xs)"
    using px by (simp only: runs.simps if_True)
  also have "\<dots> = [x # xs]"
    by (simp only: tw dw runs.simps)
  finally show ?thesis unfolding w .
qed

lemma runs_word_sep:
  assumes "w \<noteq> []" "list_all P w" "\<not> P c"
  shows "runs P (w @ c # rest) = w # runs P rest"
proof -
  obtain x xs where w: "w = x # xs" using assms(1) by (cases w) auto
  then have px: "P x" and pxs: "\<forall>y\<in>set xs. P y" using assms(2) by (auto simp: list_all_iff)
  have tw: "takeWhile P (xs @ c # rest) = xs"
    using pxs assms(3) by (simp add: takeWhile_append2)
  have dw: "dropWhile P (xs @ c # rest) = c # rest"
    using pxs assms(3) by (simp add: dropWhile_append2)
  have "runs P (x # (xs @ c # rest)) = (x # takeWhile P (xs @ c # rest)) # runs P (dropWhile P (xs @ c # rest))"
    using px by (simp only: runs.simps if_True)
  also have "\<dots> = (x # xs) # runs P (c # rest)"
    by (simp only: tw dw)
  also have "\<dots> = (x # xs) # runs P rest"
    using assms(3) by (simp only: runs.simps if_False)
  finally show ?thesis unfolding w by simp
qed

lemma space_not_token: "\<not> is_token_char 32"
  by (simp add: is_token_char_def)

lemma findall_repeat_word_Suc:
  assumes "w \<noteq> []" "list_all is_token_char w"
  shows "findall_tokens (repeat_word w (Suc n)) = replicate (Suc n) w"
proof (induction n)
  case 0
  show ?case
    using runs_word[OF assms] by (simp add: repeat_word_one findall_tokens_def)
next
  case (Suc n)
  have "findall_tokens (repeat_word w (Suc (Suc n))) = w # findall_tokens (repeat_word w (Suc n))"
    unfolding repeat_word_Suc_Suc findall_tokens_def
    by (rule runs_word_sep[OF assms space_not_token])
  with Suc show ?case by simp
qed

lemma lower_space: "ascii_lower 32 = 32"
  by (simp add: ascii_lower_def)

lemma map_lower_repeat_word: "map ascii_lower (repeat_word w n) = repeat_word (map ascii_lower w) n"
  by (cases n) (simp_all add: repeat_word_def join_def lower_space map_concat comp_def)

lemma token_word_ascii: "list_all is_token_char w \<Longrightarrow> is_ascii w"
  by (auto simp: is_ascii_def is_token_char_def list_all_iff)

lemma is_ascii_repeat_word: "is_ascii w \<Longrightarrow> is_ascii (repeat_word w n)"
  by (cases n) (auto simp: repeat_word_def join_def is_ascii_def list_all_iff)

lemma py_lower_ascii: "is_ascii s \<Longrightarrow> py_lower py s = map ascii_lower s"
  by (simp add: py_lower_def)

lemma token_char_not_space: "is_token_char c \<Longrightarrow> \<not> is_space c"
  by (auto simp: is_token_char_def is_space_def)

lemma lower_char_token: "is_token_char c \<Longrightarrow> is_token_char (ascii_lower c)"
  by (auto simp: is_token_char_def ascii_lower_def)

lemma lower_token_word:
  "list_all is_token_char w \<Longrightarrow> list_all is_token_char (map ascii_lower w)"
  by (simp add: list_all_iff lower_char_token)

lemma py_strip_id:
  assumes "s \<noteq> []" "\<not> is_space (hd s)" "\<not> is_space (last s)"
  shows "py_strip s = s"
proof -
  have 1: "dropWhile is_space s = s"
    using assms(1,2) by (cases s) auto
  have "rev s \<noteq> []" "\<not> is_space (hd (rev s))"
    using assms(1,3) by (simp_all add: hd_rev)
  then have 2: "dropWhile is_space (rev s) = rev s"
    by (cases "rev s") auto
  show ?thesis by (simp add: py_strip_def 1 2)
qed

lemma repeat_word_ends:
  assumes "w \<noteq> []"
  shows "repeat_word w (Suc n) \<noteq> [] \<and> hd (repeat_word w (Suc n)) = hd w
         \<and> last (repeat_word w (Suc n)) = last w"
proof (induction n)
  case 0
  show ?case using assms by (simp add: repeat_word_one)
next
  case (Suc n)
  then show ?case using assms by (simp add: repeat_word_Suc_Suc)
qed

lemma py_strip_repeat_word:
  assumes "w \<noteq> []" "list_all is_token_char w"
  shows "py_strip (repeat_word w (Suc n)) = repeat_word w (Suc n)"
proof (rule py_strip_id)
  have "is_token_char (hd w)" "is_token_char (last w)"
    using assms by (simp_all add: list_all_iff)
  then show "\<not> is_space (hd (repeat_word w (Suc n)))" "\<not> is_space (last (repeat_word w (Suc n)))"
    using repeat_word_ends[OF assms(1), of n] token_char_not_space by simp_all
  show "repeat_word w (Suc n) \<noteq> []"
    using repeat_word_ends[OF assms(1), of n] by simp
qed

lemma startswith_Nil [simp]: "startswith s []"
  by (simp add: startswith_def)

lemma startswith_Cons: "startswith (x # s) (y # p) \<longleftrightarrow> x = y \<and> startswith s p"
  by (simp add: startswith_def)

lemma startswith_Nil_Cons [simp]: "\<not> startswith [] (y # p)"
  by (simp add: startswith_def)

lemma startswith_word_space:
  assumes "c \<notin> set p"
  shows "startswith (a @ c # r) p \<longleftrightarrow> startswith a p"
  using assms
proof (induction a arbitrary: p)
  case Nil
  then show ?case by (cases p) (auto simp: startswith_Cons)
next
  case (Cons x a)
  then show ?case by (cases p) (auto simp: startswith_Cons)
qed

lemma startswith_word_then_space:
  assumes "c \<notin> set a" "c \<notin> set q"
  shows "startswith (a @ c # r) (q @ [c]) \<longleftrightarrow> a = q"
  using assms
proof (induction a arbitrary: q)
  case Nil
  then show ?case by (cases q) (auto simp: startswith_Cons)
next
  case (Cons x a)
  then show ?case by (cases q) (auto simp: startswith_Cons)
qed

lemma token_word_no_space: "list_all is_token_char w \<Longrightarrow> 32 \<notin> set w"
  using space_not_token by (auto simp: list_all_iff)

lemma prefix_literals:
  "lit ''find '' = lit ''find'' @ [32]" "lit ''search '' = lit ''search'' @ [32]"
  "32 \<notin> set (lit ''recent'')" "32 \<notin> set (lit ''find'')" "32 \<notin> set (lit ''search'')"
  "32 \<notin> set (lit ''help'')"
  by (simp_all add: lit_def)

lemma command_reply_repeat_word:
  assumes "lw \<noteq> []" "list_all is_token_char lw"
    and "\<not> startswith lw (lit ''recent'')" "lw \<noteq> lit ''find''" "lw \<noteq> lit ''search''"
  shows "command_reply py (repeat_word lw (Suc (Suc n))) msg = None"
proof -
  let ?r = "repeat_word lw (Suc n)"
  have ns: "32 \<notin> set lw" using assms(2) by (rule token_word_no_space)
  have 1: "\<not> startswith (lw @ 32 # ?r) (lit ''recent'')"
    using assms(3) prefix_literals(3) by (subst startswith_word_space) simp_all
  have 2: "\<not> startswith (lw @ 32 # ?r) (lit ''find '')"
    unfolding prefix_literals(1)
    using assms(4) ns prefix_literals(4) by (subst startswith_word_then_space) simp_all
  have 3: "\<not> startswith (lw @ 32 # ?r) (lit ''search '')"
    unfolding prefix_literals(2)
    using assms(5) ns prefix_literals(5) by (subst startswith_word_then_space) simp_all
  have 4: "lw @ 32 # ?r \<noteq> lit ''help''"
  proof
    assume "lw @ 32 # ?r = lit ''help''"
    then have "32 \<in> set (lit ''help'')" by (metis in_set_conv_decomp)
    then show False using prefix_literals(6) by simp
  qed
  show ?thesis
    unfolding repeat_word_Suc_Suc command_reply_None_iff using 1 2 3 4 by simp
qed

text \<open>
  C10 (amended). For every word made of token characters whose lowercase form is in the
  domain vocabulary, does not start with \<^verbatim>\<open>recent\<close> and is neither \<^verbatim>\<open>find\<close> nor
  \<^verbatim>\<open>search\<close>, the input that repeats the word three or more times has as many tokens
  as copies (so the branch of more than two tokens applies), has overlap ratio 1, the
  ratio of the word alone, and is run as a search query.
\<close>

theorem repeated_domain_word:
  assumes "w \<noteq> []" and "list_all is_token_char w"
    and "py_lower py w \<in> domain_tokens py meta"
    and "3 \<le> n"
    and "\<not> startswith (py_lower py w) (lit ''recent'')"
    and "py_lower py w \<noteq> lit ''find''" and "py_lower py w \<noteq> lit ''search''"
  shows "findall_tokens (py_strip (py_lower py (py_strip (repeat_word w n)))) = replicate n (py_lower py w)
       \<and> overlap_ratio py meta (replicate n (py_lower py w)) = 1
       \<and> overlap_ratio py meta (findall_tokens (py_strip (py_lower py (py_strip w)))) = 1
       \<and> chat py meta (repeat_word w n) = Inr (Run (repeat_word (py_lower py w) n) None 25)"
proof -
  define k where "k = n - 2"
  have n: "n = Suc (Suc k)"
    using assms(4) by (simp add: k_def)
  let ?lw = "py_lower py w"
  have aw: "is_ascii w"
    using assms(2) by (rule token_word_ascii)
  have lw_eq: "?lw = map ascii_lower w"
    using aw by (rule py_lower_ascii)
  have lw: "?lw \<noteq> []" "list_all is_token_char ?lw"
    unfolding lw_eq using assms(1,2) by (simp_all add: lower_token_word)
  have lr: "py_lower py (repeat_word w n) = repeat_word ?lw n"
    unfolding lw_eq using py_lower_ascii[OF is_ascii_repeat_word[OF aw]]
    by (simp add: map_lower_repeat_word)
  have s1: "py_strip (repeat_word w n) = repeat_word w n"
    unfolding n by (rule py_strip_repeat_word[OF assms(1,2)])
  have s2: "py_strip (py_lower py (repeat_word w n)) = repeat_word ?lw n"
    unfolding lr unfolding n by (rule py_strip_repeat_word[OF lw])
  have t: "findall_tokens (repeat_word ?lw n) = replicate n ?lw"
    unfolding n by (rule findall_repeat_word_Suc[OF lw])
  have c: "command_reply py (repeat_word ?lw n) (repeat_word w n) = None"
    unfolding n by (rule command_reply_repeat_word[OF lw assms(5,6,7)])
  have set_rep: "set (replicate n ?lw) = {?lw}"
    using n by (simp add: set_replicate_conv_if)
  have ratio: "overlap_ratio py meta (replicate n ?lw) = 1"
    using assms(3) by (simp add: overlap_ratio_def set_rep)
  have w1: "py_strip (py_lower py (py_strip w)) = ?lw"
    using py_strip_repeat_word[OF assms(1,2), of 0] py_strip_repeat_word[OF lw, of 0]
    by (simp add: repeat_word_one)
  have t1: "findall_tokens ?lw = [?lw]"
    using findall_repeat_word_Suc[OF lw, of 0] by (simp add: repeat_word_one)
  have ratio1: "overlap_ratio py meta (findall_tokens (py_strip (py_lower py (py_strip w)))) = 1"
    using assms(3) by (simp add: w1 t1 overlap_ratio_def)
  have "chat py meta (repeat_word w n) =
      (if length (replicate n ?lw) \<le> 2 \<and> overlap_ratio py meta (replicate n ?lw) \<ge> 0.33
       then Inr (Run (repeat_word ?lw n) None 25)
       else if length (replicate n ?lw) > 2 \<and> overlap_ratio py meta (replicate n ?lw) \<ge> 0.18
       then Inr (Run (repeat_word ?lw n) None 25)
       else Inr (Text refusal_message))"
  proof (rule chat_gate)
    show "repeat_word ?lw n = py_strip (py_lower py (py_strip (repeat_word w n)))"
      by (simp add: s1 s2)
    show "replicate n ?lw = findall_tokens (repeat_word ?lw n)"
      by (simp add: t)
    show "command_reply py (repeat_word ?lw n) (py_strip (repeat_word w n)) = None"
      by (simp add: s1 c)
    show "replicate n ?lw \<noteq> []"
      using assms(4) by auto
  qed
  then have ch: "chat py meta (repeat_word w n) = Inr (Run (repeat_word ?lw n) None 25)"
    using assms(4) by (simp add: ratio)
  show ?thesis
    using t ratio ratio1 ch by (simp add: s1 s2)
qed

text \<open>
  An instance of C10: the document type \<^verbatim>\<open>Rule\<close> gives the domain word \<^verbatim>\<open>rule\<close>.
\<close>

theorem repeated_domain_word_witness:
  "list_all is_token_char (lit ''rule'')
   \<and> py_lower stub_interpreter (lit ''rule'') \<in> domain_tokens stub_interpreter stub_metadata
   \<and> \<not> startswith (py_lower stub_interpreter (lit ''rule'')) (lit ''recent'')
   \<and> repeat_word (lit ''rule'') 3 = lit ''rule rule rule''
   \<and> findall_tokens (py_strip (py_lower stub_interpreter (py_strip (repeat_word (lit ''rule'') 3))))
        = [lit ''rule'', lit ''rule'', lit ''rule'']
   \<and> overlap_ratio stub_interpreter stub_metadata [lit ''rule'', lit ''rule'', lit ''rule''] = 1
   \<and> chat stub_interpreter stub_metadata (lit ''rule rule rule'') = Inr (Run (lit ''rule rule rule'') None 25)"
proof -
  have h1: "lit ''rule'' \<noteq> []" by (simp add: lit_def)
  have h2: "list_all is_token_char (lit ''rule'')" by code_simp
  have h3: "py_lower stub_interpreter (lit ''rule'') \<in> domain_tokens stub_interpreter stub_metadata"
    by code_simp
  have h4: "(3::nat) \<le> 3" by simp
  have h5: "\<not> startswith (py_lower stub_interpreter (lit ''rule'')) (lit ''recent'')" by code_simp
  have h6: "py_lower stub_interpreter (lit ''rule'') \<noteq> lit ''find''" by code_simp
  have h7: "py_lower stub_interpreter (lit ''rule'') \<noteq> lit ''search''" by code_simp
  have l: "py_lower stub_interpreter (lit ''rule'') = lit ''rule''" by code_simp
  have rw: "repeat_word (lit ''rule'') 3 = lit ''rule rule rule''" by code_simp
  have rp: "replicate 3 (lit ''rule'') = [lit ''rule'', lit ''rule'', lit ''rule'']" by code_simp
  note g = repeated_domain_word[OF h1 h2 h3 h4 h5 h6 h7]
  have t: "findall_tokens (py_strip (py_lower stub_interpreter (py_strip (repeat_word (lit ''rule'') 3))))
        = [lit ''rule'', lit ''rule'', lit ''rule'']"
    using g unfolding l rp by blast
  have o: "overlap_ratio stub_interpreter stub_metadata [lit ''rule'', lit ''rule'', lit ''rule''] = 1"
    using g unfolding l rp by blast
  have ch: "chat stub_interpreter stub_metadata (lit ''rule rule rule'') = Inr (Run (lit ''rule rule rule'') None 25)"
    using g unfolding l rw by blast
  from h2 h3 h5 rw t o ch show ?thesis by blast
qed

text \<open>
  C10 as stated fails: the domain word \<^verbatim>\<open>recent\<close> repeated three times starts with a
  command prefix and is answered with the usage message of \<^verbatim>\<open>recent\<close>.
\<close>

theorem repeated_recent_is_usage:
  "lit ''recent'' \<in> domain_tokens stub_interpreter recent_metadata
   \<and> repeat_word (lit ''recent'') 3 = lit ''recent recent recent''
   \<and> chat stub_interpreter recent_metadata (lit ''recent recent recent'') = Inr (Text usage_recent)"
  by code_simp

section \<open>Search\<close>

lemma like_percent:
  "like_match eq (37 # ps) t \<longleftrightarrow> (\<exists>k\<le>length t. like_match eq ps (drop k t))"
proof (induction t)
  case Nil
  then show ?case by simp
next
  case (Cons c cs)
  have "like_match eq (37 # ps) (c # cs) \<longleftrightarrow>
        like_match eq ps (c # cs) \<or> like_match eq (37 # ps) cs"
    by simp
  also have "\<dots> \<longleftrightarrow> like_match eq ps (drop 0 (c # cs)) \<or> (\<exists>k\<le>length cs. like_match eq ps (drop (Suc k) (c # cs)))"
    using Cons.IH by simp
  also have "\<dots> \<longleftrightarrow> (\<exists>k\<le>length (c # cs). like_match eq ps (drop k (c # cs)))"
  proof
    assume "like_match eq ps (drop 0 (c # cs)) \<or> (\<exists>k\<le>length cs. like_match eq ps (drop (Suc k) (c # cs)))"
    then show "\<exists>k\<le>length (c # cs). like_match eq ps (drop k (c # cs))"
      by (metis Suc_le_mono le0 length_Cons)
  next
    assume "\<exists>k\<le>length (c # cs). like_match eq ps (drop k (c # cs))"
    then obtain k where k: "k \<le> length (c # cs)" "like_match eq ps (drop k (c # cs))" by blast
    show "like_match eq ps (drop 0 (c # cs)) \<or> (\<exists>k\<le>length cs. like_match eq ps (drop (Suc k) (c # cs)))"
    proof (cases k)
      case 0
      with k show ?thesis by simp
    next
      case (Suc j)
      with k have "j \<le> length cs" "like_match eq ps (drop (Suc j) (c # cs))" by simp_all
      then show ?thesis by blast
    qed
  qed
  finally show ?case .
qed

lemma like_only_percent: "like_match eq [37] t"
  using like_percent[of eq "[]" t] by auto

lemma like_prefix:
  assumes "wildcard_free q"
  shows "like_match eq (q @ [37]) t \<longleftrightarrow> list_all2 eq (take (length q) t) q"
  using assms
proof (induction q arbitrary: t)
  case Nil
  then show ?case using like_only_percent by simp
next
  case (Cons p q)
  then have wf: "wildcard_free q" and p: "p \<noteq> 37" "p \<noteq> 95" "p \<noteq> 92"
    by (simp_all add: wildcard_free_def)
  show ?case
  proof (cases t)
    case Nil
    then show ?thesis using p by simp
  next
    case (Cons c cs)
    have "like_match eq ((p # q) @ [37]) (c # cs) \<longleftrightarrow> eq c p \<and> like_match eq (q @ [37]) cs"
      using p by simp
    also have "\<dots> \<longleftrightarrow> eq c p \<and> list_all2 eq (take (length q) cs) q"
      using Cons.IH[OF wf] by simp
    also have "\<dots> \<longleftrightarrow> list_all2 eq (take (length (p # q)) (c # cs)) (p # q)"
      by simp
    finally show ?thesis using Cons by simp
  qed
qed

lemma occurs_in_iff:
  "occurs_in eq q s \<longleftrightarrow> (\<exists>k\<le>length s. list_all2 eq (take (length q) (drop k s)) q)"
  unfolding occurs_in_def list_ex_iff set_upt by (auto simp: less_Suc_eq_le)

lemma percent_literal: "lit ''%'' = [37]"
  by (simp add: lit_def)

lemma like_contains:
  assumes "wildcard_free q"
  shows "like_match eq (lit ''%'' @ q @ lit ''%'') t \<longleftrightarrow> occurs_in eq q t"
proof -
  have "like_match eq (lit ''%'' @ q @ lit ''%'') t \<longleftrightarrow> (\<exists>k\<le>length t. like_match eq (q @ [37]) (drop k t))"
    using like_percent[of eq "q @ [37]" t] by (simp add: percent_literal)
  also have "\<dots> \<longleftrightarrow> (\<exists>k\<le>length t. list_all2 eq (take (length q) (drop k t)) q)"
    using like_prefix[OF assms] by simp
  also have "\<dots> \<longleftrightarrow> occurs_in eq q t"
    by (simp add: occurs_in_iff)
  finally show ?thesis .
qed

text \<open>
  \<open>occurs_in\<close> is the substring relation up to the equality of characters: the text has
  a segment whose characters are equal, one by one, to those of the query.
\<close>

lemma occurs_in_segment:
  "occurs_in eq q s \<longleftrightarrow> (\<exists>a m b. s = a @ m @ b \<and> list_all2 eq m q)"
proof
  assume "occurs_in eq q s"
  then obtain k where k: "k \<le> length s" "list_all2 eq (take (length q) (drop k s)) q"
    unfolding occurs_in_iff by blast
  have "s = take k s @ take (length q) (drop k s) @ drop (length q) (drop k s)"
    by (simp only: append_take_drop_id)
  with k(2) show "\<exists>a m b. s = a @ m @ b \<and> list_all2 eq m q"
    by blast
next
  assume "\<exists>a m b. s = a @ m @ b \<and> list_all2 eq m q"
  then obtain a m b where s: "s = a @ m @ b" and m: "list_all2 eq m q" by blast
  have l: "length m = length q" using m by (rule list_all2_lengthD)
  have "take (length q) (drop (length a) s) = m"
    using s l by simp
  moreover have "length a \<le> length s" using s by simp
  ultimately show "occurs_in eq q s"
    unfolding occurs_in_iff using m by blast
qed

lemma col_select_columns: "c \<in> set cs \<Longrightarrow> col (select_columns cs r) c = col r c"
proof -
  assume "c \<in> set cs"
  then have "map_of (map (\<lambda>c. (c, col r c)) cs) c = Some (col r c)"
    by (induction cs) auto
  then show ?thesis by (simp add: col_def select_columns_def)
qed

lemma date_key_select: "date_key (select_columns selected_columns r) = date_key r"
  by (simp add: date_key_def col_select_columns selected_columns_def)

lemma col_append_other:
  "c \<in> set cs \<Longrightarrow> col (select_columns cs r @ extra) c = col r c"
proof -
  assume c: "c \<in> set cs"
  then have "map_of (map (\<lambda>c. (c, col r c)) cs) c = Some (col r c)"
    by (induction cs) auto
  then show ?thesis by (simp add: col_def select_columns_def map_add_def)
qed

lemma date_key_select_relevance:
  "date_key (select_columns selected_columns r @ extra) = date_key r"
  by (simp add: date_key_def col_append_other selected_columns_def)

lemma sorted_order_by_date_desc:
  "sorted_wrt (\<lambda>a b. date_key b \<le> date_key a) (order_by_date_desc rows)"
proof -
  have "sorted (map date_key (sort_key date_key rows))" by simp
  then have "sorted_wrt (\<lambda>a b. date_key a \<le> date_key b) (sort_key date_key rows)"
    by (simp add: sorted_map)
  then show ?thesis
    by (simp add: order_by_date_desc_def sorted_wrt_rev)
qed

lemma run_select_sorted:
  assumes "\<And>r. date_key (select_list r) = date_key r"
  shows "sorted_wrt (\<lambda>a b. date_key b \<le> date_key a) (run_select eng docs cond select_list agency limit)"
proof -
  have "sorted_wrt (\<lambda>a b. date_key b \<le> date_key a)
          (map select_list (order_by_date_desc (filter P docs)))" for P
    using sorted_order_by_date_desc[of "filter P docs"] by (simp add: sorted_wrt_map assms)
  then show ?thesis
    by (simp add: run_select_def Let_def sorted_wrt_take)
qed

lemma run_select_limit:
  assumes "0 \<le> limit"
  shows "run_select eng docs cond select_list agency limit =
         take (nat limit) (run_select eng docs cond select_list agency (int (length docs)))"
proof -
  have "length (map select_list (order_by_date_desc (filter P docs))) \<le> length docs" for P
    by (simp add: order_by_date_desc_def)
  then show ?thesis
    using assms by (simp add: run_select_def Let_def)
qed

lemma run_select_members:
  assumes "x \<in> set (run_select eng docs cond select_list agency limit)"
  shows "\<exists>r\<in>set docs. x = select_list r \<and> cond r"
proof -
  from assms have "x \<in> set (map select_list (order_by_date_desc
      (filter (\<lambda>r. cond r \<and> (case agency of None \<Rightarrow> True
         | Some a \<Rightarrow> a = [] \<or> json_contains_name eng (col r ''agencies'') a)) docs)))"
    by (auto simp: run_select_def Let_def split: if_splits dest: in_set_takeD)
  then show ?thesis
    by (auto simp: order_by_date_desc_def)
qed

lemma like_field_contains:
  assumes "wildcard_free q"
  shows "list_ex (\<lambda>c. sql_like (collation_eq eng) (col r c) (lit ''%'' @ q @ lit ''%'')) searchable_columns
         \<longleftrightarrow> field_contains eng q r"
proof -
  have "sql_like (collation_eq eng) v (lit ''%'' @ q @ lit ''%'') \<longleftrightarrow>
        (case v of SStr s \<Rightarrow> occurs_in (collation_eq eng) q (text_of s) | _ \<Rightarrow> False)" for v
    using like_contains[OF assms] by (cases v) (simp_all add: sql_like_def)
  then show ?thesis
    by (simp add: field_contains_def)
qed

text \<open>
  C5 (amended). Without a fulltext index (or when the probe fails), for a query whose
  stripped form is non-empty and holds none of the pattern characters \<^verbatim>\<open>%\<close>, \<^verbatim>\<open>_\<close>
  and backslash, every returned row is the select list of a stored document one of whose
  title, abstract, excerpt, full text or raw payload contains the stripped query up to
  the collation of the columns: the text has as many consecutive characters as the query,
  each equal under the collation to its counterpart in the query. In every search mode
  the returned rows are in descending order of the publication date, and the limit
  truncates that ordered result.
\<close>

theorem fallback_search_and_ordering:
  "(fulltext_index eng \<noteq> Some True \<and> py_strip query \<noteq> [] \<and> wildcard_free (py_strip query) \<longrightarrow>
      (\<forall>x\<in>set (query_mysql eng docs query agency limit).
         \<exists>r\<in>set docs. x = select_columns selected_columns r \<and> field_contains eng (py_strip query) r))
   \<and> sorted_wrt (\<lambda>a b. date_key b \<le> date_key a) (query_mysql eng docs query agency limit)
   \<and> (0 \<le> limit \<longrightarrow>
        query_mysql eng docs query agency limit =
        take (nat limit) (query_mysql eng docs query agency (int (length docs))))"
proof (intro conjI impI ballI)
  fix x
  assume a: "fulltext_index eng \<noteq> Some True \<and> py_strip query \<noteq> [] \<and> wildcard_free (py_strip query)"
    and x: "x \<in> set (query_mysql eng docs query agency limit)"
  from a have nf: "\<not> (case fulltext_index eng of None \<Rightarrow> False | Some idx \<Rightarrow> idx)"
    by (cases "fulltext_index eng") auto
  from x a nf have "x \<in> set (run_select eng docs
      (\<lambda>r. list_ex (\<lambda>c. sql_like (collation_eq eng) (col r c) (lit ''%'' @ py_strip query @ lit ''%''))
              searchable_columns)
      (select_columns selected_columns) agency limit)"
    by (auto simp: query_mysql_def Let_def split: if_splits)
  from run_select_members[OF this] like_field_contains[of "py_strip query"] a
  show "\<exists>r\<in>set docs. x = select_columns selected_columns r \<and> field_contains eng (py_strip query) r"
    by auto
next
  show "sorted_wrt (\<lambda>a b. date_key b \<le> date_key a) (query_mysql eng docs query agency limit)"
    by (auto simp: query_mysql_def Let_def run_select_sorted date_key_select date_key_select_relevance
        split: option.splits)
next
  assume "0 \<le> limit"
  then show "query_mysql eng docs query agency limit =
        take (nat limit) (query_mysql eng docs query agency (int (length docs)))"
    using run_select_limit[of limit]
    by (auto simp: query_mysql_def Let_def split: option.splits)
qed

text \<open>
  An instance of C5: of three stored documents the two that contain \<^verbatim>\<open>pesticide\<close> are
  returned, the more recent first, and a limit of 1 keeps the first of them. The query
  comes with a no-break space before it and a space after it.
\<close>

theorem fallback_search_and_ordering_witness:
  "fulltext_index plain_engine \<noteq> Some True
   \<and> py_strip (0xA0 # lit ''pesticide '') = lit ''pesticide''
   \<and> wildcard_free (lit ''pesticide'')
   \<and> query_mysql plain_engine stored_documents (0xA0 # lit ''pesticide '') None 25 =
       [select_columns selected_columns (doc_row ''2024-00003'' ''PESTICIDES; exemptions'' ''2024-03-01''),
        select_columns selected_columns (doc_row ''2024-00001'' ''Pesticide tolerances'' ''2024-01-05'')]
   \<and> field_contains plain_engine (lit ''pesticide'')
        (doc_row ''2024-00003'' ''PESTICIDES; exemptions'' ''2024-03-01'')
   \<and> field_contains plain_engine (lit ''pesticide'')
        (doc_row ''2024-00001'' ''Pesticide tolerances'' ''2024-01-05'')
   \<and> sorted_wrt (\<lambda>a b. date_key b \<le> date_key a)
        (query_mysql plain_engine stored_documents (0xA0 # lit ''pesticide '') None 25)
   \<and> query_mysql plain_engine stored_documents (0xA0 # lit ''pesticide '') None 1 =
       take 1 (query_mysql plain_engine stored_documents (0xA0 # lit ''pesticide '') None 3)"
proof -
  have h1: "fulltext_index plain_engine \<noteq> Some True" by (simp add: plain_engine_def)
  have h2: "py_strip (0xA0 # lit ''pesticide '') = lit ''pesticide''" by code_simp
  have h3: "wildcard_free (lit ''pesticide'')" by code_simp
  have r: "query_mysql plain_engine stored_documents (0xA0 # lit ''pesticide '') None 25 =
       [select_columns selected_columns (doc_row ''2024-00003'' ''PESTICIDES; exemptions'' ''2024-03-01''),
        select_columns selected_columns (doc_row ''2024-00001'' ''Pesticide tolerances'' ''2024-01-05'')]"
    by code_simp
  have f1: "field_contains plain_engine (lit ''pesticide'')
        (doc_row ''2024-00003'' ''PESTICIDES; exemptions'' ''2024-03-01'')"
    by code_simp
  have f2: "field_contains plain_engine (lit ''pesticide'')
        (doc_row ''2024-00001'' ''Pesticide tolerances'' ''2024-01-05'')"
    by code_simp
  have l: "int (length stored_documents) = 3" by (simp add: stored_documents_def)
  note g = fallback_search_and_ordering[of plain_engine "0xA0 # lit ''pesticide ''" stored_documents None]
  have s: "sorted_wrt (\<lambda>a b. date_key b \<le> date_key a)
        (query_mysql plain_engine stored_documents (0xA0 # lit ''pesticide '') None 25)"
    using g[of 25] by blast
  have t: "query_mysql plain_engine stored_documents (0xA0 # lit ''pesticide '') None 1 =
       take 1 (query_mysql plain_engine stored_documents (0xA0 # lit ''pesticide '') None 3)"
    using g[of 1] unfolding l by simp
  from h1 h2 h3 r f1 f2 s t show ?thesis by blast
qed

text \<open>
  C5 as stated fails: the query is put into the \<^verbatim>\<open>LIKE\<close> pattern unescaped, so the
  query \<^verbatim>\<open>%\<close> returns a document none of whose fields contains a percent sign.
\<close>

theorem like_wildcard_matches_everything:
  "py_strip (lit ''%'') = lit ''%''
   \<and> query_mysql plain_engine [doc_row ''2024-00002'' ''Air quality'' ''2024-02-01''] (lit ''%'') None 25 =
       [select_columns selected_columns (doc_row ''2024-00002'' ''Air quality'' ''2024-02-01'')]
   \<and> \<not> field_contains plain_engine (lit ''%'') (doc_row ''2024-00002'' ''Air quality'' ''2024-02-01'')"
  by code_simp

text \<open>
  Texts outside ASCII: the bytes \<^verbatim>\<open>C3 B1\<close> are one character, U+00F1, and under a
  collation that ignores accents the query \<^verbatim>\<open>dona\<close> finds the title that starts with
  \<^verbatim>\<open>Do\<close>, U+00F1, \<^verbatim>\<open>a\<close>.
\<close>

lemma texts_outside_ascii:
  "text_of (''Do'' @ [CHR 0xC3, CHR 0xB1] @ ''a Ana'') = lit ''Do'' @ [0xF1] @ lit ''a Ana''"
  "text_of [CHR 0xE2, CHR 0x84, CHR 0xAA] = [0x212A]"
  "text_of [CHR 0xF0, CHR 0x9F, CHR 0x94, CHR 0x8D] = [0x1F50D]"
  "query_mysql accent_engine [doc_row ''2024-00004'' (''Do'' @ [CHR 0xC3, CHR 0xB1] @ ''a Ana County'') ''2024-04-01'']
     (lit ''dona'') None 25
   = [select_columns selected_columns
        (doc_row ''2024-00004'' (''Do'' @ [CHR 0xC3, CHR 0xB1] @ ''a Ana County'') ''2024-04-01'')]"
  by code_simp+

section \<open>Persistence\<close>

lemma upsert_placeholders: "count_placeholders (sql_text UpsertDocument) = 19"
  by code_simp

lemma select_placeholders: "count_placeholders (sql_text SelectContentHash) = 1"
  by code_simp

lemma document_values_length: "length (document_values libs kvs doc_num content_hash) = 20"
  by (simp add: document_values_def)

lemma process_params_length: "process_params xs = Inr ps \<Longrightarrow> length ps = length xs"
  by (induction xs arbitrary: ps) (auto split: sum.splits)

lemma process_params_error: "process_params xs = Inl e \<Longrightarrow> e = ProgrammingError"
proof (induction xs)
  case Nil
  then show ?case by simp
next
  case (Cons x xs)
  then show ?case by (cases x) (auto split: sum.splits)
qed

lemma execute_upsert_fails:
  "execute libs UpsertDocument (document_values libs kvs doc_num content_hash) db = Inl ProgrammingError"
proof (cases "process_params (document_values libs kvs doc_num content_hash)")
  case (Inl e)
  then show ?thesis using process_params_error[OF Inl] by (simp add: execute_def)
next
  case (Inr ps)
  then have "length ps = 20"
    using process_params_length[OF Inr] by (simp add: document_values_length)
  then show ?thesis using Inr by (simp add: execute_def upsert_placeholders)
qed

lemma execute_select:
  "to_mysql p = Inr v \<Longrightarrow>
     execute libs SelectContentHash [p] db = Inr (db, select_content_hash libs db v)"
  by (simp add: execute_def select_placeholders run_statement_def)

text \<open>The outcomes of one document: the upsert is never among them.\<close>

lemma process_doc_match:
  assumes "digest_match libs (store b) (JObj kvs)"
  shows "process_doc libs kvs b = b\<lparr>events := events b @ [Unchanged]\<rparr>"
  using assms unfolding process_doc_def digest_match_def Let_def
  by (auto split: sum.splits prod.splits list.splits)

lemma process_doc_no_match:
  assumes "\<not> digest_match libs (store b) (JObj kvs)"
  shows "process_doc libs kvs b = b\<lparr>skipped_count := skipped_count b + 1, events := events b @ [NoDocumentNumber]\<rparr>
         \<or> (\<exists>e. process_doc libs kvs b = failed e b)"
  using assms unfolding process_doc_def digest_match_def Let_def
  by (auto simp: execute_upsert_fails split: sum.splits prod.splits list.splits)

lemma process_doc_cases:
  "process_doc libs kvs b = b\<lparr>skipped_count := skipped_count b + 1, events := events b @ [NoDocumentNumber]\<rparr>
   \<or> process_doc libs kvs b = b\<lparr>events := events b @ [Unchanged]\<rparr>
   \<or> (\<exists>e. process_doc libs kvs b = failed e b)"
  using process_doc_match[of libs b kvs] process_doc_no_match[of libs b kvs] by blast

lemma process_doc_store: "store (process_doc libs kvs b) = store b"
  using process_doc_cases[of libs kvs b] by (auto simp: failed_def)

lemma process_doc_processed: "processed_count (process_doc libs kvs b) = processed_count b"
  using process_doc_cases[of libs kvs b] by (auto simp: failed_def)

lemma process_doc_skipped:
  "skipped_count (process_doc libs kvs b) =
     skipped_count b + (if digest_match libs (store b) (JObj kvs) then 0 else 1)"
proof (cases "digest_match libs (store b) (JObj kvs)")
  case True
  then show ?thesis by (simp add: process_doc_match)
next
  case False
  then show ?thesis using process_doc_no_match[OF False] by (auto simp: failed_def)
qed

lemma process_all_store:
  "process_all libs docs b = Inr r \<Longrightarrow> store r = store b \<and> processed_count r = processed_count b"
proof (induction docs arbitrary: b)
  case Nil
  then show ?case by simp
next
  case (Cons d docs)
  then show ?case
    by (cases d) (auto simp: process_doc_store process_doc_processed)
qed

lemma process_all_skipped:
  "process_all libs docs b = Inr r \<Longrightarrow>
     skipped_count r = skipped_count b + length (filter (\<lambda>d. \<not> digest_match libs (store b) d) docs)"
proof (induction docs arbitrary: b)
  case Nil
  then show ?case by simp
next
  case (Cons d docs)
  show ?case
  proof (cases d)
    case (JObj kvs)
    with Cons.prems have "process_all libs docs (process_doc libs kvs b) = Inr r" by simp
    from Cons.IH[OF this] show ?thesis
      by (simp add: JObj process_doc_store process_doc_skipped)
  qed (use Cons.prems in auto)
qed

text \<open>
  C9 (amended). A document whose recomputed digest equals the digest the store holds for
  its id is skipped: the store and both counts stay as they are. Every other document of
  the batch adds one to \<open>processed_count\<close> or to \<open>skipped_count\<close>. So the two counts that
  are reported at the end of a batch add up to the number of documents that were not
  unchanged; the unchanged documents are in neither count, and no count of them is kept.
\<close>

theorem skip_accounting:
  "(digest_match libs (store b) (JObj kvs) \<longrightarrow>
      store (process_doc libs kvs b) = store b
      \<and> processed_count (process_doc libs kvs b) = processed_count b
      \<and> skipped_count (process_doc libs kvs b) = skipped_count b)
   \<and> (\<not> digest_match libs (store b) (JObj kvs) \<longrightarrow>
        processed_count (process_doc libs kvs b) + skipped_count (process_doc libs kvs b)
          = processed_count b + skipped_count b + 1)
   \<and> (process_documents libs db docs = Inr r \<longrightarrow>
        processed_count r + skipped_count r
          = length (filter (\<lambda>d. \<not> digest_match libs db d) docs))"
proof (intro conjI impI)
  assume "digest_match libs (store b) (JObj kvs)"
  then show "store (process_doc libs kvs b) = store b"
    and "processed_count (process_doc libs kvs b) = processed_count b"
    and "skipped_count (process_doc libs kvs b) = skipped_count b"
    by (simp_all add: process_doc_match)
next
  assume "\<not> digest_match libs (store b) (JObj kvs)"
  then show "processed_count (process_doc libs kvs b) + skipped_count (process_doc libs kvs b)
          = processed_count b + skipped_count b + 1"
    by (simp add: process_doc_processed process_doc_skipped)
next
  assume r: "process_documents libs db docs = Inr r"
  let ?b0 = "\<lparr>store = db, processed_count = 0, skipped_count = 0, events = []\<rparr>"
  show "processed_count r + skipped_count r = length (filter (\<lambda>d. \<not> digest_match libs db d) docs)"
  proof (cases "docs = []")
    case True
    with r show ?thesis by (auto simp: process_documents_def)
  next
    case False
    with r have p: "process_all libs docs ?b0 = Inr r" by (simp add: process_documents_def)
    from process_all_store[OF p] process_all_skipped[OF p] show ?thesis by simp
  qed
qed

text \<open>
  An instance of C9: a batch of a stored unchanged document, a document without a number
  and a new document.
\<close>

theorem skip_accounting_witness:
  "digest_match stub_libs stored_pesticide (JObj pesticide_fields)
   \<and> \<not> digest_match stub_libs stored_pesticide untitled_doc
   \<and> \<not> digest_match stub_libs stored_pesticide agency_doc
   \<and> store (process_doc stub_libs pesticide_fields
        \<lparr>store = stored_pesticide, processed_count = 0, skipped_count = 0, events = []\<rparr>) = stored_pesticide
   \<and> processed_count (process_doc stub_libs pesticide_fields
        \<lparr>store = stored_pesticide, processed_count = 0, skipped_count = 0, events = []\<rparr>) = 0
   \<and> skipped_count (process_doc stub_libs pesticide_fields
        \<lparr>store = stored_pesticide, processed_count = 0, skipped_count = 0, events = []\<rparr>) = 0
   \<and> process_documents stub_libs stored_pesticide [pesticide_doc, untitled_doc, agency_doc] =
       Inr \<lparr>store = stored_pesticide, processed_count = 0, skipped_count = 2,
            events = [Unchanged, NoDocumentNumber, Failed ProgrammingError]\<rparr>
   \<and> length (filter (\<lambda>d. \<not> digest_match stub_libs stored_pesticide d)
        [pesticide_doc, untitled_doc, agency_doc]) = 2"
proof -
  let ?b0 = "\<lparr>store = stored_pesticide, processed_count = 0, skipped_count = 0, events = []\<rparr>"
  let ?r = "\<lparr>store = stored_pesticide, processed_count = 0, skipped_count = 2,
            events = [Unchanged, NoDocumentNumber, Failed ProgrammingError]\<rparr>"
  have h0: "digest_match stub_libs stored_pesticide (JObj pesticide_fields)"
    by code_simp
  have h1: "\<not> digest_match stub_libs stored_pesticide untitled_doc"
    by code_simp
  have h2: "\<not> digest_match stub_libs stored_pesticide agency_doc"
    by code_simp
  have ev: "process_documents stub_libs stored_pesticide [pesticide_doc, untitled_doc, agency_doc] = Inr ?r"
    by code_simp
  note g = skip_accounting[where kvs = pesticide_fields and b = ?b0 and libs = stub_libs
      and db = stored_pesticide and docs = "[pesticide_doc, untitled_doc, agency_doc]" and r = ?r]
  have p: "store (process_doc stub_libs pesticide_fields ?b0) = stored_pesticide
      \<and> processed_count (process_doc stub_libs pesticide_fields ?b0) = 0
      \<and> skipped_count (process_doc stub_libs pesticide_fields ?b0) = 0"
    using g h0 by simp
  have c: "length (filter (\<lambda>d. \<not> digest_match stub_libs stored_pesticide d)
        [pesticide_doc, untitled_doc, agency_doc]) = 2"
    using g ev by simp
  from h0 h1 h2 p ev c show ?thesis by blast
qed

text \<open>
  C9 as stated fails: unchanged documents are not counted. A batch that holds an
  unchanged document and the batch without it end with the same two counts, the only
  ones that \<^verbatim>\<open>process_documents\<close> keeps and reports.
\<close>

theorem unchanged_documents_are_not_counted:
  "digest_match stub_libs stored_pesticide pesticide_doc
   \<and> process_documents stub_libs stored_pesticide [pesticide_doc, agency_doc] =
       Inr \<lparr>store = stored_pesticide, processed_count = 0, skipped_count = 1,
            events = [Unchanged, Failed ProgrammingError]\<rparr>
   \<and> process_documents stub_libs stored_pesticide [agency_doc] =
       Inr \<lparr>store = stored_pesticide, processed_count = 0, skipped_count = 1,
            events = [Failed ProgrammingError]\<rparr>"
  by code_simp

text \<open>
  C1 (code defect). The upsert statement has 19 placeholders for the 20 values it is
  given, so \<^verbatim>\<open>cursor.execute\<close> raises for every document and the handler counts the
  document as skipped: \<^verbatim>\<open>process_documents\<close> never writes a row and never stores a
  digest. A second pass over the same batch changes no row, but only because it repeats
  the first pass; no document is recognised as unchanged by its digest.
\<close>

theorem process_documents_never_writes:
  assumes "process_documents libs db docs = Inr r"
  shows "store r = db \<and> processed_count r = 0
       \<and> process_documents libs (store r) docs = Inr r
       \<and> count_placeholders (sql_text UpsertDocument) = 19
       \<and> length (document_values libs kvs doc_num content_hash) = 20"
proof -
  have "store r = db \<and> processed_count r = 0"
  proof (cases "docs = []")
    case True
    with assms show ?thesis by (auto simp: process_documents_def)
  next
    case False
    with assms have "process_all libs docs \<lparr>store = db, processed_count = 0, skipped_count = 0, events = []\<rparr> = Inr r"
      by (simp add: process_documents_def)
    from process_all_store[OF this] show ?thesis by simp
  qed
  then show ?thesis
    using assms by (simp add: upsert_placeholders document_values_length)
qed

text \<open>
  An instance of C1: a new document on an empty store, processed twice.
\<close>

theorem process_documents_never_writes_witness:
  "process_documents stub_libs empty_database [pesticide_doc] =
     Inr \<lparr>store = empty_database, processed_count = 0, skipped_count = 1,
          events = [Failed ProgrammingError]\<rparr>
   \<and> select_content_hash stub_libs empty_database (SStr ''2024-00002'') = []
   \<and> process_documents stub_libs
        (store \<lparr>store = empty_database, processed_count = 0, skipped_count = 1,
                 events = [Failed ProgrammingError]\<rparr>) [pesticide_doc] =
     Inr \<lparr>store = empty_database, processed_count = 0, skipped_count = 1,
          events = [Failed ProgrammingError]\<rparr>"
proof -
  have ev: "process_documents stub_libs empty_database [pesticide_doc] =
     Inr \<lparr>store = empty_database, processed_count = 0, skipped_count = 1,
          events = [Failed ProgrammingError]\<rparr>"
    by code_simp
  have s: "select_content_hash stub_libs empty_database (SStr ''2024-00002'') = []"
    by (simp add: select_content_hash_def empty_database_def)
  from process_documents_never_writes[OF ev] ev s show ?thesis by blast
qed

text \<open>
  C8 (code defect, the same one). Processing the document with the agencies EPA and FDA
  on an empty store leaves the table \<^verbatim>\<open>agencies\<close> empty: the upsert raises before the
  loop over the agencies is reached.
\<close>

theorem agencies_never_inserted:
  "process_documents stub_libs empty_database [agency_doc] =
     Inr \<lparr>store = empty_database, processed_count = 0, skipped_count = 1,
          events = [Failed ProgrammingError]\<rparr>
   \<and> agency_rows empty_database = []
   \<and> dict_get [(''document_number'', JStr ''2024-00001''), (''title'', JStr ''Pesticide tolerances''),
                (''agencies'', JList [JObj [(''name'', JStr ''EPA'')], JObj [(''name'', JStr ''FDA'')]])]
        ''agencies'' = JList [JObj [(''name'', JStr ''EPA'')], JObj [(''name'', JStr ''FDA'')]]"
  by code_simp

end
